theory Spec2Isabelle
  imports Main
begin

section \<open>Strings, history entries and the rendered history block\<close>

text \<open>
  A JavaScript string is a sequence of UTF-16 code units. The source applies
  \<^verbatim>\<open>String.prototype.trim\<close>, string concatenation and truthiness tests to
  them; an empty string is the only falsy string.
\<close>

type_synonym jsstring = "nat list"

definition str :: "string \<Rightarrow> jsstring" where
  "str cs = map of_char cs"

text \<open>The code units that \<^verbatim>\<open>trim\<close> strips: ECMAScript WhiteSpace and LineTerminator.\<close>

definition isWhiteSpace :: "nat \<Rightarrow> bool" where
  "isWhiteSpace u \<longleftrightarrow>
     u \<in> set [9, 10, 11, 12, 13, 32, 160, 5760, 8192, 8193, 8194, 8195, 8196, 8197,
              8198, 8199, 8200, 8201, 8202, 8232, 8233, 8239, 8287, 12288, 65279]"

definition trim :: "jsstring \<Rightarrow> jsstring" where
  "trim t = rev (dropWhile isWhiteSpace (rev (dropWhile isWhiteSpace t)))"

datatype role = User | Assistant

record entry =
  e_role :: role
  e_text :: jsstring
  e_timestamp :: int

text \<open>
  \<^verbatim>\<open>buildConversationHistory\<close> (server.js 80-98). The accented letters of the
  source's literals are written as their code units.
\<close>

definition renderEntry :: "entry \<Rightarrow> jsstring" where
  "renderEntry e =
     (case e_role e of
        User \<Rightarrow> str [CHR 0x0A] @ str ''[Usuario dijo]: '' @ e_text e @ str [CHR 0x0A]
      | Assistant \<Rightarrow> str ''[T'' @ [250] @ str '' respondiste]: '' @ e_text e @ str [CHR 0x0A])"

definition buildConversationHistory :: "entry list \<Rightarrow> jsstring" where
  "buildConversationHistory conversationLog =
     (if length conversationLog = 0 then []
      else
        str [CHR 0x0A, CHR 0x0A] @ str ''=== HISTORIAL DE CONVERSACI'' @ [211]
          @ str ''N PREVIA ==='' @ str [CHR 0x0A]
          @ concat (map renderEntry conversationLog)
          @ str [CHR 0x0A] @ str ''=== FIN DEL HISTORIAL ==='' @ str [CHR 0x0A]
          @ str ''IMPORTANTE: Contin'' @ [250]
          @ str ''a la conversaci'' @ [243] @ str ''n manteniendo coherencia con este historial. ''
          @ str ''No repitas informaci'' @ [243]
          @ str ''n ya discutida a menos que sea relevante.'' @ str [CHR 0x0A, CHR 0x0A])"

definition systemText :: "entry list \<Rightarrow> jsstring" where
  "systemText conversationLog =
     str ''Eres un asistente amigable que responde en espa'' @ [241]
       @ str ''ol de forma clara y concisa. ''
       @ str ''Mant'' @ [233]
       @ str ''n coherencia con el historial de conversaci'' @ [243]
       @ str ''n y evita repetir informaci'' @ [243] @ str ''n ya discutida.''
       @ buildConversationHistory conversationLog"

section \<open>Credentials\<close>

text \<open>
  \<^verbatim>\<open>getEphemeralToken\<close> (27-46) asks the Google auth library for an access token
  and turns every failure, and a missing or empty token, into \<^verbatim>\<open>null\<close>. The
  outcome of the exchange is an input of the model, and so is the value of
  \<^verbatim>\<open>process.env.GEMINI_API_KEY\<close>, which \<^verbatim>\<open>createGeminiConnection\<close> (49-77)
  reads at line 69 each time it gets there. The outcome of the exchange is
  consulted only when \<^verbatim>\<open>useEphemeralToken\<close> holds.
\<close>

datatype auth = AuthThrows | AccessToken jsstring

definition getEphemeralToken :: "auth \<Rightarrow> jsstring option" where
  "getEphemeralToken a =
     (case a of
        AuthThrows \<Rightarrow> None
      | AccessToken token \<Rightarrow> if token = [] then None else Some token)"

datatype error = NoCredentials

text \<open>How the WebSocket returned by \<^verbatim>\<open>createGeminiConnection\<close> authenticates.\<close>

datatype credential = Bearer jsstring | ApiKey jsstring

definition createGeminiConnection :: "bool \<Rightarrow> auth \<Rightarrow> jsstring option \<Rightarrow> error + credential" where
  "createGeminiConnection useEphemeralToken a GEMINI_API_KEY =
     (case (if useEphemeralToken then getEphemeralToken a else None) of
        Some token \<Rightarrow> Inr (Bearer token)
      | None \<Rightarrow>
          (case GEMINI_API_KEY of
             None \<Rightarrow> Inl NoCredentials
           | Some k \<Rightarrow> if k = [] then Inl NoCredentials else Inr (ApiKey k)))"

section \<open>Messages\<close>

text \<open>
  A downstream message after \<^verbatim>\<open>JSON.parse\<close>, by its \<^verbatim>\<open>type\<close> tag.
  \<open>BadJson\<close> is a payload on which the parse throws. The text of a
  \<^verbatim>\<open>user_transcript\<close> is empty when the field is absent or falsy.
\<close>

datatype client_msg =
    BadJson
  | AudioChunk jsstring
  | TurnComplete
  | Interrupt
  | ClearHistory
  | UserTranscript jsstring
  | Other

text \<open>
  An upstream event after \<^verbatim>\<open>JSON.parse\<close>. A part is an object with an optional
  \<^verbatim>\<open>text\<close> (empty when absent) and an optional \<^verbatim>\<open>inlineData\<close> of a MIME
  type and a base64 payload; \<open>NullPart\<close> is a \<^verbatim>\<open>null\<close> element, on which the
  property access throws. \<open>Malformed\<close> is a payload on which the parse, or the
  first property access, throws.
\<close>

datatype part = NullPart | Part jsstring "(jsstring \<times> jsstring) option"

record serverContent =
  modelTurn :: "part list option"
  turnComplete :: bool

datatype gemini_msg = Malformed | Message "serverContent option"

text \<open>What the relay sends upstream and downstream.\<close>

datatype gemini_out =
    Setup jsstring
  | RealtimeInput jsstring
  | EndOfTurn
  | InterruptSignal
  | Ping
  | Close "int option" jsstring

datatype client_out =
    Ready bool nat
  | Reconnecting nat nat
  | GeminiResponse gemini_msg
  | ErrorMessage jsstring
  | HistoryCleared

section \<open>The state of the server\<close>

datatype readyState = CONNECTING | OPEN | CLOSING | CLOSED

text \<open>
  The object literal \<^verbatim>\<open>connectionData\<close> (110-123). \<open>gemini\<close> names an upstream
  socket, \<open>conversationLog\<close> names an array of the store (the array is shared
  between the records of one session), the two timer fields hold timer handles.
\<close>

record connectionData =
  gemini :: nat
  reconnectTimeout :: "nat option"
  conversationLog :: nat
  pingInterval :: "nat option"
  lastPong :: int
  lastPing :: int
  currentUserText :: jsstring
  currentAssistantText :: jsstring
  reconnectCount :: nat
  audioBuffers :: "jsstring list"

text \<open>
  An upstream socket: its ready state, and what the handlers registered on it
  in \<^verbatim>\<open>setupGeminiConnection\<close> close over: the downstream socket
  \<^verbatim>\<open>clientWs\<close>, the record \<^verbatim>\<open>connectionData\<close> and the array
  \<^verbatim>\<open>conversationLog\<close>.
\<close>

record socket =
  readyState :: readyState
  k_clientWs :: nat
  k_connectionData :: nat
  k_conversationLog :: nat
  k_credential :: credential

text \<open>
  A pending timer and its delay in milliseconds. The watchdog interval closes over
  the upstream socket and the record that was current when the socket opened;
  the two reconnection timers close over the downstream socket.
\<close>

datatype timer = PingTimer nat nat | ReconnectTimer nat | FallbackTimer nat

text \<open>
  A call of \<^verbatim>\<open>setupGeminiConnection(clientWs, true)\<close> that is suspended at the
  token exchange (line 54, awaited at 102), made by the connection handler (365)
  or by the reconnection timer (334).
\<close>

datatype pending = AwaitConnection nat | AwaitReconnect nat

record server =
  clientConnections :: "nat \<rightharpoonup> nat"
  heap :: "nat \<Rightarrow> connectionData"
  arrays :: "nat \<Rightarrow> entry list"
  sockets :: "nat \<Rightarrow> socket"
  clients :: "nat \<Rightarrow> readyState"
  timers :: "nat \<rightharpoonup> timer \<times> nat"
  awaiting :: "nat \<rightharpoonup> pending"
  accepted :: "nat list"
  toGemini :: "(nat \<times> gemini_out) list"
  toClient :: "(nat \<times> client_out) list"
  unhandledRejections :: "error list"
  fresh :: nat

definition PING_INTERVAL :: nat where "PING_INTERVAL = 20000"
definition PONG_TIMEOUT :: int where "PONG_TIMEOUT = 45000"

definition lookup :: "server \<Rightarrow> nat \<Rightarrow> (nat \<times> connectionData) option" where
  "lookup s clientWs = map_option (\<lambda>r. (r, heap s r)) (clientConnections s clientWs)"

definition modify :: "server \<Rightarrow> nat \<Rightarrow> (connectionData \<Rightarrow> connectionData) \<Rightarrow> server" where
  "modify s r f = s\<lparr>heap := (heap s)(r := f (heap s r))\<rparr>"

definition sendGemini :: "server \<Rightarrow> nat \<Rightarrow> gemini_out \<Rightarrow> server" where
  "sendGemini s g m = s\<lparr>toGemini := toGemini s @ [(g, m)]\<rparr>"

definition sendClient :: "server \<Rightarrow> nat \<Rightarrow> client_out \<Rightarrow> server" where
  "sendClient s c m = s\<lparr>toClient := toClient s @ [(c, m)]\<rparr>"

definition isOpen :: "server \<Rightarrow> nat \<Rightarrow> bool" where
  "isOpen s g \<longleftrightarrow> readyState (sockets s g) = OPEN"

definition setReadyState :: "server \<Rightarrow> nat \<Rightarrow> readyState \<Rightarrow> server" where
  "setReadyState s g st = s\<lparr>sockets := (sockets s)(g := (sockets s g)\<lparr>readyState := st\<rparr>)\<rparr>"

text \<open>\<^verbatim>\<open>ws.close(code, reason)\<close> on an open socket: the close frame goes out and the
  socket is closing from then on.\<close>

definition closeSocket :: "server \<Rightarrow> nat \<Rightarrow> int option \<Rightarrow> jsstring \<Rightarrow> server" where
  "closeSocket s g code reason = setReadyState (sendGemini s g (Close code reason)) g CLOSING"

definition setTimer :: "server \<Rightarrow> timer \<Rightarrow> nat \<Rightarrow> nat \<times> server" where
  "setTimer s t delay =
     (fresh s, s\<lparr>timers := (timers s)(fresh s \<mapsto> (t, delay)), fresh := fresh s + 1\<rparr>)"

definition clearTimer :: "server \<Rightarrow> nat \<Rightarrow> server" where
  "clearTimer s h = s\<lparr>timers := (timers s)(h := None)\<rparr>"

section \<open>Establishing an upstream connection\<close>

text \<open>
  \<^verbatim>\<open>setupGeminiConnection\<close> (101-125, 357), from the moment the token exchange
  has settled with outcome \<open>a\<close> (with \<^verbatim>\<open>useEphemeralToken\<close> false there is
  no exchange and the call runs without suspending). The state \<open>s\<close> is the one
  at that moment: the map of records is read at line 105, after the await. If
  \<^verbatim>\<open>createGeminiConnection\<close> throws, nothing has been touched. Otherwise a new
  socket is allocated in state \<open>CONNECTING\<close>, the log array of the existing
  record is reused (a new empty array when there is none), and a new record
  replaces the entry of the map. \<open>key\<close> is the API key of the environment,
  \<open>now\<close> is what \<^verbatim>\<open>Date.now()\<close> returns.
\<close>

definition setupGeminiConnection ::
  "server \<Rightarrow> nat \<Rightarrow> bool \<Rightarrow> auth \<Rightarrow> jsstring option \<Rightarrow> int \<Rightarrow> error + server" where
  "setupGeminiConnection s clientWs useEphemeralToken a key now =
     (case createGeminiConnection useEphemeralToken a key of
        Inl e \<Rightarrow> Inl e
      | Inr cred \<Rightarrow>
          let geminiWs = fresh s;
              existingConnection = lookup s clientWs;
              log = (case existingConnection of
                       Some (_, ex) \<Rightarrow> conversationLog ex
                     | None \<Rightarrow> fresh s + 1);
              connectionData = \<lparr>
                gemini = geminiWs,
                reconnectTimeout = None,
                conversationLog = log,
                pingInterval = None,
                lastPong = now,
                lastPing = now,
                currentUserText = [],
                currentAssistantText = [],
                reconnectCount = (case existingConnection of
                                    Some (_, ex) \<Rightarrow> reconnectCount ex + 1
                                  | None \<Rightarrow> 0),
                audioBuffers = []\<rparr>;
              r = fresh s + 2
          in Inr (s\<lparr>
               clientConnections := (clientConnections s)(clientWs \<mapsto> r),
               heap := (heap s)(r := connectionData),
               arrays := (case existingConnection of
                            Some _ \<Rightarrow> arrays s
                          | None \<Rightarrow> (arrays s)(log := [])),
               sockets := (sockets s)(geminiWs :=
                            \<lparr>readyState = CONNECTING, k_clientWs = clientWs,
                             k_connectionData = r, k_conversationLog = log,
                             k_credential = cred\<rparr>),
               fresh := fresh s + 3\<rparr>))"

section \<open>Handlers of an upstream socket\<close>

text \<open>The \<^verbatim>\<open>setInterval\<close> callback (177-202), for the socket and record it closes over.\<close>

definition pingTick :: "server \<Rightarrow> nat \<Rightarrow> nat \<Rightarrow> int \<Rightarrow> server" where
  "pingTick s geminiWs r now =
     (if isOpen s geminiWs then
        let s1 = modify s r (\<lambda>connection. connection\<lparr>lastPing := now\<rparr>);
            s2 = sendGemini s1 geminiWs Ping;
            timeSinceLastPong = now - lastPong (heap s2 r)
        in if timeSinceLastPong > PONG_TIMEOUT
           then closeSocket s2 geminiWs (Some 1000) (str ''Ping timeout'')
           else s2
      else s)"

text \<open>\<^verbatim>\<open>geminiWs.on("open")\<close> (128-214).\<close>

definition onGeminiOpen :: "server \<Rightarrow> nat \<Rightarrow> server" where
  "onGeminiOpen s geminiWs =
     (let clientWs = k_clientWs (sockets s geminiWs);
          log = arrays s (k_conversationLog (sockets s geminiWs));
          s1 = sendGemini s geminiWs (Setup (systemText log));
          s2 = (case lookup s1 clientWs of
                  Some (r, connection) \<Rightarrow>
                    let (h, s') = setTimer s1 (PingTimer geminiWs r) PING_INTERVAL
                    in modify s' r (\<lambda>connection. connection\<lparr>pingInterval := Some h\<rparr>)
                | None \<Rightarrow> s1)
      in if clients s2 clientWs = OPEN
         then sendClient s2 clientWs
                (Ready (length log > 0)
                   (reconnectCount (heap s2 (k_connectionData (sockets s geminiWs)))))
         else s2)"

text \<open>\<^verbatim>\<open>geminiWs.on("pong")\<close> (217-224).\<close>

definition onGeminiPong :: "server \<Rightarrow> nat \<Rightarrow> int \<Rightarrow> server" where
  "onGeminiPong s geminiWs now =
     (case lookup s (k_clientWs (sockets s geminiWs)) of
        Some (r, connection) \<Rightarrow> modify s r (\<lambda>connection. connection\<lparr>lastPong := now\<rparr>)
      | None \<Rightarrow> s)"

text \<open>
  The \<^verbatim>\<open>parts.forEach\<close> loop (238-257) over the accumulator: the second
  component is \<open>False\<close> when an element made the callback throw, which leaves
  what was accumulated so far and abandons the rest of the handler.
  \<open>decode\<close> is \<^verbatim>\<open>Buffer.from(\<dots>, "base64").toString("utf-8")\<close>.
\<close>

fun forEachPart :: "(jsstring \<Rightarrow> jsstring) \<Rightarrow> part list \<Rightarrow> jsstring \<Rightarrow> jsstring \<times> bool" where
  "forEachPart decode [] acc = (acc, True)"
| "forEachPart decode (NullPart # ps) acc = (acc, False)"
| "forEachPart decode (Part t inlineData # ps) acc =
     (let acc1 = (if t \<noteq> [] then acc @ t else acc);
          acc2 = (case inlineData of
                    Some (mimeType, d) \<Rightarrow>
                      if mimeType = str ''text/plain'' \<and> d \<noteq> [] then acc1 @ decode d else acc1
                  | None \<Rightarrow> acc1)
      in forEachPart decode ps acc2)"

text \<open>The turn-complete branch (261-287): flush the accumulator, then cap the log.\<close>

definition flushAssistant :: "server \<Rightarrow> nat \<Rightarrow> int \<Rightarrow> server" where
  "flushAssistant s r now =
     (let connection = heap s r in
      if trim (currentAssistantText connection) \<noteq> [] then
        let assistantText = trim (currentAssistantText connection);
            a = conversationLog connection;
            pushed = arrays s a @ [\<lparr>e_role = Assistant, e_text = assistantText, e_timestamp = now\<rparr>];
            s1 = modify (s\<lparr>arrays := (arrays s)(a := pushed)\<rparr>) r
                   (\<lambda>connection. connection\<lparr>currentAssistantText := []\<rparr>)
        in if length pushed > 30
           then s1\<lparr>arrays := (arrays s1)(a := drop (length pushed - 30) pushed)\<rparr>
           else s1
      else s)"

text \<open>\<^verbatim>\<open>geminiWs.on("message")\<close> (227-307).\<close>

definition onGeminiMessage :: "(jsstring \<Rightarrow> jsstring) \<Rightarrow> server \<Rightarrow> nat \<Rightarrow> gemini_msg \<Rightarrow> int \<Rightarrow> server" where
  "onGeminiMessage decode s geminiWs message now =
     (let clientWs = k_clientWs (sockets s geminiWs) in
      case message of
        Malformed \<Rightarrow> s
      | Message content \<Rightarrow>
          (case lookup s clientWs of
             None \<Rightarrow> s
           | Some (r, connection) \<Rightarrow>
               let forward = (\<lambda>s'. if clients s' clientWs = OPEN
                                    then sendClient s' clientWs (GeminiResponse message) else s')
               in case content of
                    None \<Rightarrow> forward s
                  | Some sc \<Rightarrow>
                      let (acc, ok) = (case modelTurn sc of
                                         Some parts \<Rightarrow>
                                           forEachPart decode parts (currentAssistantText connection)
                                       | None \<Rightarrow> (currentAssistantText connection, True));
                          s1 = modify s r (\<lambda>connection. connection\<lparr>currentAssistantText := acc\<rparr>)
                      in if \<not> ok then s1
                         else forward (if turnComplete sc then flushAssistant s1 r now else s1)))"

text \<open>\<^verbatim>\<open>geminiWs.on("close")\<close> (310-342); the body of the timer it sets is \<open>onTimer\<close> below.\<close>

definition onGeminiClose :: "server \<Rightarrow> nat \<Rightarrow> server" where
  "onGeminiClose s geminiWs =
     (let clientWs = k_clientWs (sockets s geminiWs);
          s1 = (case lookup s clientWs of
                  Some (r, connection) \<Rightarrow>
                    (case pingInterval connection of
                       Some h \<Rightarrow> modify (clearTimer s h) r (\<lambda>connection. connection\<lparr>pingInterval := None\<rparr>)
                     | None \<Rightarrow> s)
                | None \<Rightarrow> s)
      in case lookup s1 clientWs of
           Some (r, connection) \<Rightarrow>
             if clients s1 clientWs = OPEN then
               let s2 = sendClient s1 clientWs
                          (Reconnecting (reconnectCount connection + 1) (reconnectCount connection));
                   (h, s3) = setTimer s2 (ReconnectTimer clientWs) 3000
               in modify s3 r (\<lambda>connection. connection\<lparr>reconnectTimeout := Some h\<rparr>)
             else s1
         | None \<Rightarrow> s1)"

text \<open>\<^verbatim>\<open>geminiWs.on("error")\<close> (345-355).\<close>

definition onGeminiError :: "server \<Rightarrow> nat \<Rightarrow> jsstring \<Rightarrow> server" where
  "onGeminiError s geminiWs message =
     (let clientWs = k_clientWs (sockets s geminiWs) in
      if clients s clientWs = OPEN then sendClient s clientWs (ErrorMessage message) else s)"

section \<open>Handlers of a downstream socket\<close>

text \<open>The \<^verbatim>\<open>turn_complete\<close> branch (397-419) once the upstream socket is known to be open.\<close>

definition flushUser :: "server \<Rightarrow> nat \<Rightarrow> int \<Rightarrow> server" where
  "flushUser s r now =
     (let connection = heap s r in
      if trim (currentUserText connection) \<noteq> [] then
        let userText = trim (currentUserText connection);
            a = conversationLog connection;
            pushed = arrays s a @ [\<lparr>e_role = User, e_text = userText, e_timestamp = now\<rparr>]
        in modify (s\<lparr>arrays := (arrays s)(a := pushed)\<rparr>) r
             (\<lambda>connection. connection\<lparr>currentUserText := []\<rparr>)
      else s)"

text \<open>\<^verbatim>\<open>clientWs.on("message")\<close> (371-443).\<close>

definition onClientMessage :: "server \<Rightarrow> nat \<Rightarrow> client_msg \<Rightarrow> int \<Rightarrow> server" where
  "onClientMessage s clientWs msg now =
     (case msg of
        BadJson \<Rightarrow> s
      | _ \<Rightarrow>
        (case lookup s clientWs of
           None \<Rightarrow> s
         | Some (r, connection) \<Rightarrow>
             let geminiWs = gemini connection in
             case msg of
               AudioChunk audio \<Rightarrow>
                 if isOpen s geminiWs then
                   sendGemini
                     (modify s r (\<lambda>connection. connection\<lparr>audioBuffers := audioBuffers connection @ [audio]\<rparr>))
                     geminiWs (RealtimeInput audio)
                 else s
             | TurnComplete \<Rightarrow>
                 if isOpen s geminiWs then
                   modify (flushUser (sendGemini s geminiWs EndOfTurn) r now) r
                     (\<lambda>connection. connection\<lparr>audioBuffers := []\<rparr>)
                 else s
             | Interrupt \<Rightarrow>
                 if isOpen s geminiWs then sendGemini s geminiWs InterruptSignal else s
             | ClearHistory \<Rightarrow>
                 let a = fresh s;
                     s1 = modify (s\<lparr>arrays := (arrays s)(a := []), fresh := fresh s + 1\<rparr>) r
                            (\<lambda>connection. connection\<lparr>conversationLog := a, currentUserText := [],
                                 currentAssistantText := [], audioBuffers := []\<rparr>)
                 in if clients s1 clientWs = OPEN then sendClient s1 clientWs HistoryCleared else s1
             | UserTranscript t \<Rightarrow>
                 if t \<noteq> [] then
                   modify s r (\<lambda>connection. connection\<lparr>currentUserText :=
                                  currentUserText connection @ str '' '' @ t\<rparr>)
                 else s
             | _ \<Rightarrow> s))"

text \<open>\<^verbatim>\<open>clientWs.on("close")\<close> (445-460).\<close>

definition onClientClose :: "server \<Rightarrow> nat \<Rightarrow> server" where
  "onClientClose s clientWs =
     (case lookup s clientWs of
        None \<Rightarrow> s
      | Some (r, connection) \<Rightarrow>
          let s1 = (case reconnectTimeout connection of Some h \<Rightarrow> clearTimer s h | None \<Rightarrow> s);
              s2 = (case pingInterval connection of Some h \<Rightarrow> clearTimer s1 h | None \<Rightarrow> s1);
              s3 = (if isOpen s2 (gemini connection)
                    then closeSocket s2 (gemini connection) None [] else s2)
          in s3\<lparr>clientConnections := (clientConnections s3)(clientWs := None)\<rparr>)"

text \<open>
  \<^verbatim>\<open>wss.on("connection")\<close> (361-369) up to its first suspension: the call of
  \<^verbatim>\<open>setupGeminiConnection(clientWs, true)\<close> waits for the token exchange. The
  message and close listeners of the downstream socket are registered only at the
  end of the handler (371, 445). Until then no record exists for the socket, and
  both listeners return at once when there is no record, so an event that arrives
  earlier and is lost has the effect the listener would have had: none.
\<close>

definition suspend :: "server \<Rightarrow> pending \<Rightarrow> server" where
  "suspend s k = s\<lparr>awaiting := (awaiting s)(fresh s \<mapsto> k), fresh := fresh s + 1\<rparr>"

definition onConnection :: "server \<Rightarrow> nat \<Rightarrow> server" where
  "onConnection s clientWs = suspend s (AwaitConnection clientWs)"

text \<open>
  The token exchange of the suspended call \<open>p\<close> settles with outcome \<open>a\<close>, and
  the caller runs on. The connection handler (361-369): a thrown error leads to
  one attempt with the API key, and an error thrown by that one rejects the
  handler's promise, which nothing handles. The reconnection callback (331-340): a
  thrown error sets the fallback timer, whose handle is kept nowhere.
\<close>

definition onTokenSettled :: "server \<Rightarrow> nat \<Rightarrow> auth \<Rightarrow> jsstring option \<Rightarrow> int \<Rightarrow> server" where
  "onTokenSettled s p a key now =
     (case awaiting s p of
        None \<Rightarrow> s
      | Some (AwaitConnection clientWs) \<Rightarrow>
          let s1 = s\<lparr>awaiting := (awaiting s)(p := None)\<rparr> in
          (case setupGeminiConnection s1 clientWs True a key now of
             Inr s' \<Rightarrow> s'
           | Inl _ \<Rightarrow>
               (case setupGeminiConnection s1 clientWs False a key now of
                  Inr s' \<Rightarrow> s'
                | Inl e \<Rightarrow> s1\<lparr>unhandledRejections := unhandledRejections s1 @ [e]\<rparr>))
      | Some (AwaitReconnect clientWs) \<Rightarrow>
          let s1 = s\<lparr>awaiting := (awaiting s)(p := None)\<rparr> in
          (case setupGeminiConnection s1 clientWs True a key now of
             Inr s' \<Rightarrow> s'
           | Inl _ \<Rightarrow> snd (setTimer s1 (FallbackTimer clientWs) 2000)))"

section \<open>Timers\<close>

text \<open>
  The callback of the timer set at 331-340 (\<open>ReconnectTimer\<close>), which suspends at
  the token exchange; of the one set at 338 (\<open>FallbackTimer\<close>), which calls
  \<^verbatim>\<open>setupGeminiConnection(clientWs, false)\<close> and lets its promise go; and of
  the watchdog interval. A timeout leaves the table when it fires, an interval
  stays; a handle that is not in the table (never set, fired or cleared) does not
  fire. With \<^verbatim>\<open>useEphemeralToken\<close> false no exchange takes place, so the
  outcome passed to the call is not consulted.
\<close>

definition onTimer :: "server \<Rightarrow> nat \<Rightarrow> jsstring option \<Rightarrow> int \<Rightarrow> server" where
  "onTimer s h key now =
     (case timers s h of
        None \<Rightarrow> s
      | Some (PingTimer geminiWs r, _) \<Rightarrow> pingTick s geminiWs r now
      | Some (ReconnectTimer clientWs, _) \<Rightarrow> suspend (clearTimer s h) (AwaitReconnect clientWs)
      | Some (FallbackTimer clientWs, _) \<Rightarrow>
          let s1 = clearTimer s h in
          (case setupGeminiConnection s1 clientWs False AuthThrows key now of
             Inr s' \<Rightarrow> s'
           | Inl e \<Rightarrow> s1\<lparr>unhandledRejections := unhandledRejections s1 @ [e]\<rparr>))"

section \<open>Events\<close>

text \<open>
  One event of the event loop; each runs until the code suspends or returns. The
  transport has already moved the socket to its new ready state when it emits
  \<^verbatim>\<open>open\<close>, \<^verbatim>\<open>close\<close> or \<^verbatim>\<open>error\<close>; a new downstream socket is open.
  \<open>accepted\<close> lists the downstream sockets that the server has emitted.
  \<open>TokenSettles p a key now\<close> is the end of the token exchange that the
  suspended call \<open>p\<close> waits for; \<open>key\<close> in it and in \<open>TimerFires\<close> is
  the API key found in the environment during that step.
\<close>

datatype event =
    Connection nat
  | TokenSettles nat auth "jsstring option" int
  | ClientMessage nat client_msg int
  | ClientClose nat
  | GeminiOpen nat
  | GeminiPong nat int
  | GeminiMessage nat gemini_msg int
  | GeminiClose nat
  | GeminiError nat jsstring
  | TimerFires nat "jsstring option" int

fun step :: "(jsstring \<Rightarrow> jsstring) \<Rightarrow> server \<Rightarrow> event \<Rightarrow> server" where
  "step decode s (Connection c) =
     onConnection (s\<lparr>clients := (clients s)(c := OPEN), accepted := accepted s @ [c]\<rparr>) c"
| "step decode s (TokenSettles p a key now) = onTokenSettled s p a key now"
| "step decode s (ClientMessage c m now) = onClientMessage s c m now"
| "step decode s (ClientClose c) = onClientClose (s\<lparr>clients := (clients s)(c := CLOSED)\<rparr>) c"
| "step decode s (GeminiOpen g) = onGeminiOpen (setReadyState s g OPEN) g"
| "step decode s (GeminiPong g now) = onGeminiPong s g now"
| "step decode s (GeminiMessage g m now) = onGeminiMessage decode s g m now"
| "step decode s (GeminiClose g) = onGeminiClose (setReadyState s g CLOSED) g"
| "step decode s (GeminiError g m) = onGeminiError (setReadyState s g CLOSING) g m"
| "step decode s (TimerFires h key now) = onTimer s h key now"

definition run :: "(jsstring \<Rightarrow> jsstring) \<Rightarrow> server \<Rightarrow> event list \<Rightarrow> server" where
  "run decode s es = foldl (step decode) s es"

text \<open>The server before any connection.\<close>

definition start :: server where
  "start = \<lparr>
     clientConnections = Map.empty,
     heap = (\<lambda>_. \<lparr>gemini = 0, reconnectTimeout = None, conversationLog = 0, pingInterval = None,
                    lastPong = 0, lastPing = 0, currentUserText = [], currentAssistantText = [],
                    reconnectCount = 0, audioBuffers = []\<rparr>),
     arrays = (\<lambda>_. []),
     sockets = (\<lambda>_. \<lparr>readyState = CLOSED, k_clientWs = 0, k_connectionData = 0,
                       k_conversationLog = 0, k_credential = ApiKey []\<rparr>),
     clients = (\<lambda>_. CLOSED),
     timers = Map.empty,
     awaiting = Map.empty,
     accepted = [],
     toGemini = [],
     toClient = [],
     unhandledRejections = [],
     fresh = 0\<rparr>"

text \<open>
  What the environment can do. The WebSocket server emits each downstream socket
  once. An upstream socket emits \<^verbatim>\<open>open\<close> only while connecting, emits
  \<^verbatim>\<open>close\<close> once, and emits nothing after it. Nothing else is assumed: any
  message may arrive at any time, timers and exchanges may settle in any order.
\<close>

fun allowed :: "server \<Rightarrow> event \<Rightarrow> bool" where
  "allowed s (Connection c) \<longleftrightarrow> c \<notin> set (accepted s)"
| "allowed s (GeminiOpen g) \<longleftrightarrow> readyState (sockets s g) = CONNECTING"
| "allowed s (GeminiPong g now) \<longleftrightarrow> readyState (sockets s g) \<noteq> CLOSED"
| "allowed s (GeminiMessage g m now) \<longleftrightarrow> readyState (sockets s g) \<noteq> CLOSED"
| "allowed s (GeminiClose g) \<longleftrightarrow> readyState (sockets s g) \<noteq> CLOSED"
| "allowed s (GeminiError g m) \<longleftrightarrow> readyState (sockets s g) \<noteq> CLOSED"
| "allowed s _ \<longleftrightarrow> True"

fun admissible :: "(jsstring \<Rightarrow> jsstring) \<Rightarrow> server \<Rightarrow> event list \<Rightarrow> bool" where
  "admissible decode s [] \<longleftrightarrow> True"
| "admissible decode s (e # es) \<longleftrightarrow> allowed s e \<and> admissible decode (step decode s e) es"

section \<open>Well-formed states and example runs\<close>

text \<open>Every record registered in the map was allocated before the next free identifier.\<close>

definition wellFormed :: "server \<Rightarrow> bool" where
  "wellFormed s \<longleftrightarrow> (\<forall>c r. clientConnections s c = Some r \<longrightarrow> r < fresh s)"

text \<open>
  What can still lead to events on behalf of downstream socket \<open>c\<close>: an upstream
  socket bound to it that has not closed, a pending reconnection or fallback timer
  for it, or a call suspended at the token exchange for it.
\<close>

datatype holder = Socket nat | Timer nat | Call nat

definition live :: "server \<Rightarrow> nat \<Rightarrow> nat \<Rightarrow> bool" where
  "live s c g \<longleftrightarrow> k_clientWs (sockets s g) = c \<and> readyState (sockets s g) \<noteq> CLOSED"

fun holds :: "server \<Rightarrow> nat \<Rightarrow> holder \<Rightarrow> bool" where
  "holds s c (Socket g) \<longleftrightarrow> live s c g"
| "holds s c (Timer h) \<longleftrightarrow>
     map_option fst (timers s h) = Some (ReconnectTimer c)
     \<or> map_option fst (timers s h) = Some (FallbackTimer c)"
| "holds s c (Call p) \<longleftrightarrow>
     awaiting s p = Some (AwaitConnection c) \<or> awaiting s p = Some (AwaitReconnect c)"

text \<open>
  The invariant of the runs that the environment allows: a downstream socket has at
  most one such holder at a time; the record registered for it names the upstream
  socket that has not closed, if there is one; identifiers from \<open>fresh\<close> on are
  unused; and a downstream socket that was never emitted has no holder.
\<close>

definition single :: "server \<Rightarrow> bool" where
  "single s \<longleftrightarrow> (\<forall>c x y. holds s c x \<and> holds s c y \<longrightarrow> x = y)"

definition current :: "server \<Rightarrow> bool" where
  "current s \<longleftrightarrow> (\<forall>c r g. clientConnections s c = Some r \<and> live s c g \<longrightarrow> gemini (heap s r) = g)"

definition unused :: "server \<Rightarrow> bool" where
  "unused s \<longleftrightarrow>
     (\<forall>i. fresh s \<le> i \<longrightarrow>
        readyState (sockets s i) = CLOSED \<and> timers s i = None \<and> awaiting s i = None)"

definition unknown :: "server \<Rightarrow> bool" where
  "unknown s \<longleftrightarrow> (\<forall>c x. c \<notin> set (accepted s) \<longrightarrow> \<not> holds s c x)"

definition invariant :: "server \<Rightarrow> bool" where
  "invariant s \<longleftrightarrow> wellFormed s \<and> single s \<and> current s \<and> unused s \<and> unknown s"

text \<open>
  Runs used as concrete inputs. In all of them downstream socket 0 connects, the
  token exchange of the connection handler is suspended call 0, and when it
  settles at time 0 the session gets upstream socket 1, log array 2 and record 3.
  \<open>connecting\<close>: an API key is configured, the token exchange fails, the upstream
  socket has not opened yet. \<open>opened\<close>: the same, after the upstream socket
  opened (watchdog timer 4).
\<close>

definition connecting :: server where
  "connecting = run id start [Connection 0, TokenSettles 0 AuthThrows (Some (str ''key'')) 0]"

definition opened :: server where
  "opened = run id start
     [Connection 0, TokenSettles 0 AuthThrows (Some (str ''key'')) 0, GeminiOpen 1]"

text \<open>
  \<open>upstreamClosed\<close>: no API key is configured, the first connection uses a token,
  and the upstream socket has closed, which set reconnection timer 5.
  \<open>reconnecting\<close>: then the timer fires and starts a token exchange
  (suspended call 6). \<open>tornDown\<close>: then the exchange fails, and the downstream
  socket closes.
\<close>

definition upstreamClosed :: server where
  "upstreamClosed = run id start
     [Connection 0, TokenSettles 0 (AccessToken (str ''token'')) None 0, GeminiOpen 1,
      GeminiClose 1]"

definition reconnecting :: server where
  "reconnecting = run id upstreamClosed [TimerFires 5 None 3000]"

definition tornDown :: server where
  "tornDown = run id reconnecting [TokenSettles 6 AuthThrows None 3100, ClientClose 0]"

text \<open>
  \<open>awaitingReconnect\<close>: with an API key, upstream socket 1 closed, reconnection
  timer 5 fired, and the token exchange it started is suspended call 6.
  \<open>reconnection\<close> is that run followed by two more events: the exchange
  fails, so that the reconnection uses the API key and creates upstream socket 7
  with record 9, and socket 7 opens. \<open>reconnected\<close> is the state it reaches.
\<close>

definition awaitingReconnect :: server where
  "awaitingReconnect = run id start
     [Connection 0, TokenSettles 0 AuthThrows (Some (str ''key'')) 0, GeminiOpen 1,
      GeminiClose 1, TimerFires 5 (Some (str ''key'')) 3000]"

definition reconnection :: "event list" where
  "reconnection =
     [Connection 0, TokenSettles 0 AuthThrows (Some (str ''key'')) 0, GeminiOpen 1,
      GeminiClose 1, TimerFires 5 (Some (str ''key'')) 3000,
      TokenSettles 6 AuthThrows (Some (str ''key'')) 3000, GeminiOpen 7]"

definition reconnected :: server where
  "reconnected = run id start reconnection"

text \<open>
  \<open>pendingUserText\<close>: the downstream socket sent a transcript "x" and a
  \<^verbatim>\<open>turn_complete\<close> while the upstream socket was still connecting (the
  transcript is kept, the end of the turn is dropped), then the upstream socket
  opened. \<open>pendingAssistantText\<close>: in \<open>opened\<close>, upstream delivered a
  fragment "x" of a turn that it has not completed.
\<close>

definition pendingUserText :: server where
  "pendingUserText = run id connecting
     [ClientMessage 0 (UserTranscript (str ''x'')) 1, ClientMessage 0 TurnComplete 2,
      GeminiOpen 1]"

definition pendingAssistantText :: server where
  "pendingAssistantText = run id opened
     [GeminiMessage 1 (Message (Some \<lparr>modelTurn = Some [Part (str ''x'') None],
                                      turnComplete = False\<rparr>)) 1]"

text \<open>One user turn of downstream socket 0: a transcript, then the end of the turn.\<close>

definition userTurn :: "event list" where
  "userTurn = [ClientMessage 0 (UserTranscript (str ''hola'')) 0, ClientMessage 0 TurnComplete 0]"

section \<open>Facts about trimming\<close>

lemma trim_empty_iff: "trim t = [] \<longleftrightarrow> (\<forall>u \<in> set t. isWhiteSpace u)"
proof
  assume blank: "\<forall>u \<in> set t. isWhiteSpace u"
  then show "trim t = []" by (auto simp: trim_def dest: set_dropWhileD)
next
  assume "trim t = []"
  then have all: "\<forall>u \<in> set (dropWhile isWhiteSpace t). isWhiteSpace u"
    by (simp add: trim_def)
  have "dropWhile isWhiteSpace t = []"
  proof (rule ccontr)
    assume ne: "dropWhile isWhiteSpace t \<noteq> []"
    then have "\<not> isWhiteSpace (hd (dropWhile isWhiteSpace t))" by (rule hd_dropWhile)
    moreover have "hd (dropWhile isWhiteSpace t) \<in> set (dropWhile isWhiteSpace t)"
      using ne by (rule hd_in_set)
    ultimately show False using all by blast
  qed
  then show "\<forall>u \<in> set t. isWhiteSpace u" by simp
qed

lemma trim_blank_prefix: "trim t = [] \<Longrightarrow> trim (t @ v) = trim v"
proof -
  assume "trim t = []"
  then have "\<And>u. u \<in> set t \<Longrightarrow> isWhiteSpace u" by (simp add: trim_empty_iff)
  then have "dropWhile isWhiteSpace (t @ v) = dropWhile isWhiteSpace v"
    by (rule dropWhile_append2)
  then show ?thesis by (simp add: trim_def)
qed

section \<open>Evaluating the example runs\<close>

lemmas eval_defs = run_def start_def onConnection_def onTokenSettled_def suspend_def
  onClientMessage_def onClientClose_def onGeminiOpen_def onGeminiPong_def onGeminiMessage_def
  onGeminiClose_def onGeminiError_def onTimer_def setupGeminiConnection_def
  createGeminiConnection_def getEphemeralToken_def pingTick_def flushUser_def flushAssistant_def
  lookup_def modify_def sendGemini_def sendClient_def isOpen_def setReadyState_def
  closeSocket_def setTimer_def clearTimer_def Let_def str_def PING_INTERVAL_def PONG_TIMEOUT_def

lemma connecting_facts:
  "clientConnections connecting 0 = Some 3"
  "gemini (heap connecting 3) = Suc 0"
  "readyState (sockets connecting (Suc 0)) = CONNECTING"
  "k_clientWs (sockets connecting (Suc 0)) = 0"
  "fresh connecting = 4"
  by (simp_all add: connecting_def eval_defs)

lemma opened_facts:
  "clientConnections opened 0 = Some 3"
  "gemini (heap opened 3) = Suc 0"
  "conversationLog (heap opened 3) = 2"
  "readyState (sockets opened (Suc 0)) = OPEN"
  "clients opened 0 = OPEN"
  "currentUserText (heap opened 3) = []"
  "currentAssistantText (heap opened 3) = []"
  "timers opened 4 = Some (PingTimer (Suc 0) 3, 20000)"
  "lastPong (heap opened 3) = 0"
  "k_clientWs (sockets opened (Suc 0)) = 0"
  "arrays opened 2 = []"
  "toGemini opened = [(Suc 0, Setup (systemText []))]"
  "toClient opened = [(0, Ready False 0)]"
  by (simp_all add: opened_def eval_defs systemText_def buildConversationHistory_def)

lemma upstreamClosed_facts:
  "clientConnections upstreamClosed 0 = Some 3"
  "timers upstreamClosed 5 = Some (ReconnectTimer 0, 3000)"
  "timers upstreamClosed 6 = None"
  "fresh upstreamClosed = 6"
  "unhandledRejections upstreamClosed = []"
  "reconnectTimeout (heap upstreamClosed 3) = Some 5"
  by (simp_all add: upstreamClosed_def eval_defs)

lemma reconnecting_facts:
  "awaiting reconnecting 6 = Some (AwaitReconnect 0)"
  "timers reconnecting 7 = None"
  "timers reconnecting 5 = None"
  "fresh reconnecting = 7"
  "unhandledRejections reconnecting = []"
  by (simp_all add: reconnecting_def upstreamClosed_def eval_defs)

lemma awaitingReconnect_facts:
  "clientConnections awaitingReconnect 0 = Some 3"
  "reconnectCount (heap awaitingReconnect 3) = 0"
  "awaiting awaitingReconnect 6 = Some (AwaitReconnect 0)"
  "clientConnections
     (step id awaitingReconnect (TokenSettles 6 AuthThrows (Some (str ''key'')) 3000)) 0 = Some 9"
  by (simp_all add: awaitingReconnect_def eval_defs)

lemma reconnected_facts:
  "clientConnections reconnected 0 = Some 9"
  "gemini (heap reconnected 9) = 7"
  "k_clientWs (sockets reconnected (Suc 0)) = 0"
  "k_clientWs (sockets reconnected 7) = 0"
  "readyState (sockets reconnected (Suc 0)) = CLOSED"
  "readyState (sockets reconnected 7) = OPEN"
  "clients reconnected 0 = OPEN"
  "reconnectCount (heap reconnected 9) = Suc 0"
  "lastPong (heap reconnected 9) = 3000"
  "admissible id start reconnection"
  by (simp_all add: reconnected_def reconnection_def eval_defs)

lemma pendingUserText_facts:
  "clientConnections pendingUserText 0 = Some 3"
  "gemini (heap pendingUserText 3) = Suc 0"
  "conversationLog (heap pendingUserText 3) = 2"
  "readyState (sockets pendingUserText (Suc 0)) = OPEN"
  "currentUserText (heap pendingUserText 3) = str '' x''"
  "arrays pendingUserText 2 = []"
  by (simp_all add: pendingUserText_def connecting_def eval_defs)

lemma pendingAssistantText_facts:
  "clientConnections pendingAssistantText 0 = Some 3"
  "conversationLog (heap pendingAssistantText 3) = 2"
  "k_clientWs (sockets pendingAssistantText (Suc 0)) = 0"
  "currentAssistantText (heap pendingAssistantText 3) = str ''x''"
  "arrays pendingAssistantText 2 = []"
  by (simp_all add: pendingAssistantText_def opened_def eval_defs)

section \<open>Downstream messages\<close>

lemma trim_hola: "trim t = [] \<Longrightarrow> trim (t @ str '' '' @ str ''hola'') = str ''hola''"
  by (simp add: trim_blank_prefix) (simp add: trim_def str_def isWhiteSpace_def)

lemma trim_hola_nonempty: "trim (t @ str '' '' @ str ''hola'') \<noteq> []"
proof -
  have "\<not> isWhiteSpace 104" by (simp add: isWhiteSpace_def)
  moreover have "104 \<in> set (t @ str '' '' @ str ''hola'')" by (simp add: str_def)
  ultimately show ?thesis using trim_empty_iff by blast
qed

text \<open>
  Claim C10. When the upstream socket of the session is not open, a
  \<^verbatim>\<open>turn_complete\<close> message changes nothing: the whole state after the
  handler is the state before it, so the user text is not flushed, neither the
  accumulator nor the pending audio is cleared, and nothing is sent upstream.
\<close>

theorem turn_complete_dropped_when_not_open:
  assumes "lookup s c = Some (r, connection)"
    and "\<not> isOpen s (gemini connection)"
  shows "step decode s (ClientMessage c TurnComplete now) = s"
  using assms by (simp add: onClientMessage_def)

theorem turn_complete_dropped_when_not_open_witness:
  "lookup connecting 0 = Some (3, heap connecting 3)
   \<and> \<not> isOpen connecting (gemini (heap connecting 3))
   \<and> step id connecting (ClientMessage 0 TurnComplete 1000) = connecting"
proof -
  have l: "lookup connecting 0 = Some (3, heap connecting 3)"
    by (simp add: lookup_def connecting_facts)
  have n: "\<not> isOpen connecting (gemini (heap connecting 3))"
    by (simp add: isOpen_def connecting_facts)
  from l n turn_complete_dropped_when_not_open [OF l n, where decode = id and now = 1000]
  show ?thesis by simp
qed

text \<open>
  Claim C9. A \<^verbatim>\<open>clear_history\<close> message of a registered session whose
  downstream socket is open leaves the session with an empty log, empty user and
  assistant accumulators and no pending audio, and sends exactly one
  \<^verbatim>\<open>history_cleared\<close> message downstream.
\<close>

theorem clear_history_resets:
  assumes "lookup s c = Some (r, connection)"
    and "clients s c = OPEN"
    and "s' = step decode s (ClientMessage c ClearHistory now)"
  shows "\<exists>connection'. lookup s' c = Some (r, connection')
           \<and> arrays s' (conversationLog connection') = []
           \<and> currentUserText connection' = []
           \<and> currentAssistantText connection' = []
           \<and> audioBuffers connection' = []
           \<and> toClient s' = toClient s @ [(c, HistoryCleared)]"
  using assms
  by (auto simp add: onClientMessage_def lookup_def modify_def sendClient_def Let_def)

theorem clear_history_resets_witness:
  "lookup opened 0 = Some (3, heap opened 3) \<and> clients opened 0 = OPEN
   \<and> (\<exists>connection'.
         lookup (step id opened (ClientMessage 0 ClearHistory 1000)) 0 = Some (3, connection')
         \<and> arrays (step id opened (ClientMessage 0 ClearHistory 1000)) (conversationLog connection') = []
         \<and> currentUserText connection' = []
         \<and> currentAssistantText connection' = []
         \<and> audioBuffers connection' = []
         \<and> toClient (step id opened (ClientMessage 0 ClearHistory 1000)) =
             [(0, Ready False 0), (0, HistoryCleared)])"
proof -
  have l: "lookup opened 0 = Some (3, heap opened 3)"
    by (simp add: lookup_def opened_facts)
  have o: "clients opened 0 = OPEN" by (simp add: opened_facts)
  from l o clear_history_resets [OF l o refl, where decode = id and now = 1000] show ?thesis
    by (simp add: opened_facts)
qed

text \<open>
  Claim C7 as stated fails. The \<^verbatim>\<open>user_transcript\<close> branch joins the text to
  whatever the accumulator holds, and it is not guarded by the state of the upstream
  socket. In the run \<open>pendingUserText\<close> the upstream socket is open and the
  accumulator still holds " x"; the five messages of the claim then append the
  entry "x hola".
\<close>

theorem pending_transcript_joins_hola:
  "clientConnections pendingUserText 0 = Some 3
   \<and> readyState (sockets pendingUserText (gemini (heap pendingUserText 3))) = OPEN
   \<and> arrays pendingUserText (conversationLog (heap pendingUserText 3)) = []
   \<and> arrays (run id pendingUserText
          [ClientMessage 0 (AudioChunk [65]) 3, ClientMessage 0 (AudioChunk [66]) 4,
           ClientMessage 0 (AudioChunk [67]) 5,
           ClientMessage 0 (UserTranscript (str ''hola'')) 6,
           ClientMessage 0 TurnComplete 7]) (conversationLog (heap pendingUserText 3))
       = [\<lparr>e_role = User, e_text = str ''x hola'', e_timestamp = 7\<rparr>]
   \<and> str ''x hola'' \<noteq> str ''hola''"
  by (simp add: pendingUserText_def connecting_def eval_defs trim_def isWhiteSpace_def)

text \<open>
  Claim C7 as amended. In a session whose upstream socket is open, three
  \<^verbatim>\<open>audio_chunk\<close> messages, a \<^verbatim>\<open>user_transcript\<close> with text "hola" and a
  \<^verbatim>\<open>turn_complete\<close> append exactly one entry to the log, a \<open>User\<close> entry
  whose text is the trimmed accumulator after " hola" was joined to what it
  held; that text is "hola" when the accumulator held nothing but white space.
  Afterwards no audio is pending, the user accumulator is empty, and upstream has
  received the three audio chunks followed by exactly one end-of-turn marker.
\<close>

theorem user_turn_scenario:
  assumes "lookup s c = Some (r, connection)"
    and "isOpen s (gemini connection)"
    and "s' = run decode s
           [ClientMessage c (AudioChunk a1) t1, ClientMessage c (AudioChunk a2) t2,
            ClientMessage c (AudioChunk a3) t3,
            ClientMessage c (UserTranscript (str ''hola'')) t4,
            ClientMessage c TurnComplete t5]"
  shows "arrays s' (conversationLog connection) =
           arrays s (conversationLog connection)
             @ [\<lparr>e_role = User,
                 e_text = trim (currentUserText connection @ str '' '' @ str ''hola''),
                 e_timestamp = t5\<rparr>]
         \<and> (trim (currentUserText connection) = [] \<longrightarrow>
               trim (currentUserText connection @ str '' '' @ str ''hola'') = str ''hola'')
         \<and> lookup s' c = Some (r, heap s' r)
         \<and> conversationLog (heap s' r) = conversationLog connection
         \<and> audioBuffers (heap s' r) = []
         \<and> currentUserText (heap s' r) = []
         \<and> toGemini s' = toGemini s @
              [(gemini connection, RealtimeInput a1), (gemini connection, RealtimeInput a2),
               (gemini connection, RealtimeInput a3), (gemini connection, EndOfTurn)]"
proof -
  have ne: "str ''hola'' \<noteq> []" by (simp add: str_def)
  have c: "connection = heap s r" using assms(1) by (auto simp: lookup_def)
  have tr: "trim (currentUserText (heap s r) @ str '' '' @ str ''hola'') \<noteq> []"
    by (rule trim_hola_nonempty)
  have blank: "trim (currentUserText connection) = [] \<longrightarrow>
               trim (currentUserText connection @ str '' '' @ str ''hola'') = str ''hola''"
    by (simp add: trim_hola)
  have main: "arrays s' (conversationLog connection) =
           arrays s (conversationLog connection)
             @ [\<lparr>e_role = User,
                 e_text = trim (currentUserText connection @ str '' '' @ str ''hola''),
                 e_timestamp = t5\<rparr>]
         \<and> lookup s' c = Some (r, heap s' r)
         \<and> conversationLog (heap s' r) = conversationLog connection
         \<and> audioBuffers (heap s' r) = []
         \<and> currentUserText (heap s' r) = []
         \<and> toGemini s' = toGemini s @
              [(gemini connection, RealtimeInput a1), (gemini connection, RealtimeInput a2),
               (gemini connection, RealtimeInput a3), (gemini connection, EndOfTurn)]"
    using assms(1,2) ne tr unfolding assms(3) run_def c
    by (auto simp add: onClientMessage_def flushUser_def lookup_def modify_def sendGemini_def
          isOpen_def Let_def)
  from main blank show ?thesis by blast
qed

theorem user_turn_scenario_witness:
  "lookup opened 0 = Some (3, heap opened 3)
   \<and> isOpen opened (gemini (heap opened 3))
   \<and> trim (currentUserText (heap opened 3)) = []
   \<and> arrays (run id opened
          [ClientMessage 0 (AudioChunk [65]) 1, ClientMessage 0 (AudioChunk [66]) 2,
           ClientMessage 0 (AudioChunk [67]) 3,
           ClientMessage 0 (UserTranscript (str ''hola'')) 4,
           ClientMessage 0 TurnComplete 5]) (conversationLog (heap opened 3))
       = [\<lparr>e_role = User, e_text = str ''hola'', e_timestamp = 5\<rparr>]"
proof -
  have l: "lookup opened 0 = Some (3, heap opened 3)"
    by (simp add: lookup_def opened_facts)
  have o: "isOpen opened (gemini (heap opened 3))"
    by (simp add: isOpen_def opened_facts)
  have t: "trim (currentUserText (heap opened 3)) = []"
    by (simp add: opened_facts trim_def)
  from l o t user_turn_scenario [OF l o refl, where decode = id and ?a1.0 = "[65]"
      and ?t1.0 = 1 and ?a2.0 = "[66]" and ?t2.0 = 2 and ?a3.0 = "[67]" and ?t3.0 = 3
      and ?t4.0 = 4 and ?t5.0 = 5]
  show ?thesis by (simp add: opened_facts)
qed

section \<open>Upstream messages\<close>

lemma trim_hola_mundo:
  "trim t = [] \<Longrightarrow> trim (t @ str ''Hola'' @ str '' mundo'') = str ''Hola mundo''"
  by (simp add: trim_blank_prefix) (simp add: trim_def str_def isWhiteSpace_def)

lemma trim_hola_mundo_nonempty: "trim (t @ str ''Hola'' @ str '' mundo'') \<noteq> []"
proof -
  have "\<not> isWhiteSpace 72" by (simp add: isWhiteSpace_def)
  moreover have "72 \<in> set (t @ str ''Hola'' @ str '' mundo'')" by (simp add: str_def)
  ultimately show ?thesis using trim_empty_iff by blast
qed

text \<open>
  Claim C8 as stated fails. A fragment is appended to whatever the assistant
  accumulator holds, and only a turn-complete event empties it. In the run
  \<open>pendingAssistantText\<close> the accumulator holds the fragment "x" of a turn that
  upstream never completed; the three events of the claim then append the entry
  "xHola mundo".
\<close>

theorem pending_fragment_joins_hola_mundo:
  "clientConnections pendingAssistantText 0 = Some 3
   \<and> k_clientWs (sockets pendingAssistantText 1) = 0
   \<and> arrays pendingAssistantText (conversationLog (heap pendingAssistantText 3)) = []
   \<and> arrays (run id pendingAssistantText
          [GeminiMessage 1 (Message (Some \<lparr>modelTurn = Some [Part (str ''Hola'') None],
                                           turnComplete = False\<rparr>)) 2,
           GeminiMessage 1 (Message (Some \<lparr>modelTurn = Some [Part (str '' mundo'') None],
                                           turnComplete = False\<rparr>)) 3,
           GeminiMessage 1 (Message (Some \<lparr>modelTurn = None, turnComplete = True\<rparr>)) 4])
        (conversationLog (heap pendingAssistantText 3))
       = [\<lparr>e_role = Assistant, e_text = str ''xHola mundo'', e_timestamp = 4\<rparr>]
   \<and> str ''xHola mundo'' \<noteq> str ''Hola mundo''"
  by (simp add: pendingAssistantText_def opened_def eval_defs trim_def isWhiteSpace_def)

text \<open>
  Claim C8 as amended. Let an upstream socket of a registered session deliver two
  model-turn events whose parts carry the texts "Hola" and " mundo", then an event
  marked turn-complete. Then exactly one entry is appended to the log (the oldest
  entries beyond the cap of 30 are dropped from the front), an \<open>Assistant\<close>
  entry whose text is the trimmed accumulator after the two fragments were
  appended to what it held; that text is "Hola mundo" when the accumulator held
  nothing but white space. Afterwards the assistant accumulator is empty.
\<close>

theorem assistant_turn_scenario:
  assumes "k_clientWs (sockets s g) = c"
    and "lookup s c = Some (r, connection)"
    and "s' = run decode s
           [GeminiMessage g (Message (Some \<lparr>modelTurn = Some [Part (str ''Hola'') None],
                                            turnComplete = False\<rparr>)) t1,
            GeminiMessage g (Message (Some \<lparr>modelTurn = Some [Part (str '' mundo'') None],
                                            turnComplete = False\<rparr>)) t2,
            GeminiMessage g (Message (Some \<lparr>modelTurn = None, turnComplete = True\<rparr>)) t3]"
  shows "arrays s' (conversationLog connection) =
           drop (length (arrays s (conversationLog connection)) - 29)
                (arrays s (conversationLog connection))
             @ [\<lparr>e_role = Assistant,
                 e_text = trim (currentAssistantText connection @ str ''Hola'' @ str '' mundo''),
                 e_timestamp = t3\<rparr>]
         \<and> (trim (currentAssistantText connection) = [] \<longrightarrow>
               trim (currentAssistantText connection @ str ''Hola'' @ str '' mundo'')
                 = str ''Hola mundo'')
         \<and> lookup s' c = Some (r, heap s' r)
         \<and> conversationLog (heap s' r) = conversationLog connection
         \<and> currentAssistantText (heap s' r) = []"
proof -
  have ne: "str ''Hola'' \<noteq> []" "str '' mundo'' \<noteq> []"
    by (simp_all add: str_def)
  have c: "connection = heap s r" using assms(2) by (auto simp: lookup_def)
  have tr: "trim (currentAssistantText (heap s r) @ str ''Hola'' @ str '' mundo'') \<noteq> []"
    by (rule trim_hola_mundo_nonempty)
  have blank: "trim (currentAssistantText connection) = [] \<longrightarrow>
               trim (currentAssistantText connection @ str ''Hola'' @ str '' mundo'')
                 = str ''Hola mundo''"
    by (simp add: trim_hola_mundo)
  have main: "arrays s' (conversationLog connection) =
           drop (length (arrays s (conversationLog connection)) - 29)
                (arrays s (conversationLog connection))
             @ [\<lparr>e_role = Assistant,
                 e_text = trim (currentAssistantText connection @ str ''Hola'' @ str '' mundo''),
                 e_timestamp = t3\<rparr>]
         \<and> lookup s' c = Some (r, heap s' r)
         \<and> conversationLog (heap s' r) = conversationLog connection
         \<and> currentAssistantText (heap s' r) = []"
    using assms(1,2) ne tr unfolding assms(3) run_def c
    by (auto simp add: onGeminiMessage_def flushAssistant_def lookup_def modify_def sendClient_def
          Let_def)
  from main blank show ?thesis by blast
qed

theorem assistant_turn_scenario_witness:
  "k_clientWs (sockets opened 1) = 0
   \<and> lookup opened 0 = Some (3, heap opened 3)
   \<and> trim (currentAssistantText (heap opened 3)) = []
   \<and> arrays (run id opened
          [GeminiMessage 1 (Message (Some \<lparr>modelTurn = Some [Part (str ''Hola'') None],
                                           turnComplete = False\<rparr>)) 1,
           GeminiMessage 1 (Message (Some \<lparr>modelTurn = Some [Part (str '' mundo'') None],
                                           turnComplete = False\<rparr>)) 2,
           GeminiMessage 1 (Message (Some \<lparr>modelTurn = None, turnComplete = True\<rparr>)) 3])
        (conversationLog (heap opened 3))
       = [\<lparr>e_role = Assistant, e_text = str ''Hola mundo'', e_timestamp = 3\<rparr>]"
proof -
  have k: "k_clientWs (sockets opened 1) = 0" by (simp add: opened_facts)
  have l: "lookup opened 0 = Some (3, heap opened 3)"
    by (simp add: lookup_def opened_facts)
  have t: "trim (currentAssistantText (heap opened 3)) = []"
    by (simp add: opened_facts trim_def)
  from k l t assistant_turn_scenario [OF k l refl, where decode = id and ?t1.0 = 1
      and ?t2.0 = 2 and ?t3.0 = 3]
  show ?thesis by (simp add: opened_facts)
qed

section \<open>The watchdog\<close>

text \<open>
  Claim C6. The watchdog of an upstream socket is an interval of 20000 ms set when
  the socket opens; a pong records its time in the record of the session. On a
  tick while the socket is open the watchdog records the time, sends
  one ping and stays scheduled; if more than 45000 ms have passed since the last
  pong recorded in its record, it also closes the socket, once: the socket is
  closing from then on, and a tick on a socket that is not open does nothing. If
  at most 45000 ms have passed, which includes a single interval of 20000 ms, it
  sends the ping only and the socket stays open.
\<close>

theorem watchdog_closes_once:
  assumes "timers s h = Some (PingTimer g r, d)"
    and "s' = step decode s (TimerFires h key now)"
  shows "(k_clientWs (sockets s0 g) = c \<and> clientConnections s0 c = Some r \<longrightarrow>
            timers (step decode s0 (GeminiOpen g)) (fresh s0) = Some (PingTimer g r, 20000)
            \<and> lastPong (heap (step decode s0 (GeminiPong g now)) r) = now)
         \<and> timers s' h = Some (PingTimer g r, d)
         \<and> (isOpen s g \<and> now - lastPong (heap s r) > 45000 \<longrightarrow>
               toGemini s' = toGemini s @ [(g, Ping), (g, Close (Some 1000) (str ''Ping timeout''))]
               \<and> lastPing (heap s' r) = now
               \<and> readyState (sockets s' g) = CLOSING
               \<and> step decode s' (TimerFires h key' now') = s')
         \<and> (isOpen s g \<and> now - lastPong (heap s r) \<le> 45000 \<longrightarrow>
               toGemini s' = toGemini s @ [(g, Ping)]
               \<and> lastPing (heap s' r) = now
               \<and> isOpen s' g)
         \<and> (\<not> isOpen s g \<longrightarrow> s' = s)"
  using assms
  by (auto simp add: onTimer_def pingTick_def onGeminiOpen_def onGeminiPong_def lookup_def
        modify_def sendGemini_def sendClient_def isOpen_def closeSocket_def setReadyState_def
        setTimer_def Let_def PING_INTERVAL_def PONG_TIMEOUT_def)

theorem watchdog_closes_once_witness:
  "timers opened 4 = Some (PingTimer 1 3, 20000)
   \<and> isOpen opened 1
   \<and> lastPong (heap opened 3) = 0
   \<and> timers (step id connecting (GeminiOpen 1)) (fresh connecting) = Some (PingTimer 1 3, 20000)
   \<and> toGemini (step id opened (TimerFires 4 None 20000)) = toGemini opened @ [(1, Ping)]
   \<and> isOpen (step id opened (TimerFires 4 None 20000)) 1
   \<and> toGemini (step id opened (TimerFires 4 None 60000)) =
         toGemini opened @ [(1, Ping), (1, Close (Some 1000) (str ''Ping timeout''))]
   \<and> \<not> isOpen (step id opened (TimerFires 4 None 60000)) 1
   \<and> step id (step id opened (TimerFires 4 None 60000)) (TimerFires 4 None 80000)
       = step id opened (TimerFires 4 None 60000)"
proof -
  have t: "timers opened 4 = Some (PingTimer 1 3, 20000)" by (simp add: opened_facts)
  have o: "isOpen opened 1" by (simp add: isOpen_def opened_facts)
  have k: "k_clientWs (sockets connecting 1) = 0 \<and> clientConnections connecting 0 = Some 3"
    by (simp add: connecting_facts)
  have early: "toGemini (step id opened (TimerFires 4 None 20000)) = toGemini opened @ [(1, Ping)]
      \<and> isOpen (step id opened (TimerFires 4 None 20000)) 1"
    using o watchdog_closes_once [OF t refl, where decode = id and key = None and now = 20000]
    by (simp add: opened_facts)
  have late: "toGemini (step id opened (TimerFires 4 None 60000)) =
         toGemini opened @ [(1, Ping), (1, Close (Some 1000) (str ''Ping timeout''))]
      \<and> readyState (sockets (step id opened (TimerFires 4 None 60000)) 1) = CLOSING
      \<and> timers (step id opened (TimerFires 4 None 60000)) 4 = Some (PingTimer 1 3, 20000)"
    using o watchdog_closes_once [OF t refl, where decode = id and key = None and now = 60000]
    by (simp add: opened_facts)
  have closing: "\<not> isOpen (step id opened (TimerFires 4 None 60000)) 1"
    using late by (simp add: isOpen_def)
  have again: "step id (step id opened (TimerFires 4 None 60000)) (TimerFires 4 None 80000)
       = step id opened (TimerFires 4 None 60000)"
    using closing late
      watchdog_closes_once [where s = "step id opened (TimerFires 4 None 60000)"
        and h = 4 and g = 1 and r = 3 and d = 20000 and decode = id and key = None
        and now = 80000, OF _ refl]
    by blast
  have created: "timers (step id connecting (GeminiOpen 1)) (fresh connecting) = Some (PingTimer 1 3, 20000)"
    using k watchdog_closes_once [OF t refl, where ?s0.0 = connecting and c = 0 and decode = id]
    by blast
  from t o early late closing again created show ?thesis by (simp add: opened_facts)
qed

section \<open>Reconnection\<close>

lemma setup_timers:
  "setupGeminiConnection s c u a key now = Inr s' \<Longrightarrow>
     timers s' = timers s \<and> awaiting s' = awaiting s
     \<and> unhandledRejections s' = unhandledRejections s"
  by (auto simp add: setupGeminiConnection_def Let_def split: sum.splits)

lemma setup_static_key:
  "setupGeminiConnection s c False a key now =
     (if key = None \<or> key = Some [] then Inl NoCredentials
      else setupGeminiConnection s c False a' key now)"
  by (auto simp add: setupGeminiConnection_def createGeminiConnection_def split: option.splits)

lemma setup_with_key:
  assumes "key = Some k" and "k \<noteq> []"
  shows "\<exists>s'. setupGeminiConnection s c False a key now = Inr s'
           \<and> readyState (sockets s' (fresh s)) = CONNECTING
           \<and> k_clientWs (sockets s' (fresh s)) = c
           \<and> k_credential (sockets s' (fresh s)) = ApiKey k
           \<and> clientConnections s' c = Some (fresh s + 2)
           \<and> gemini (heap s' (fresh s + 2)) = fresh s"
  using assms
  by (simp add: setupGeminiConnection_def createGeminiConnection_def Let_def)

lemma setup_with_token:
  assumes "getEphemeralToken a = Some tok"
  shows "\<exists>s'. setupGeminiConnection s c True a key now = Inr s'
           \<and> k_credential (sockets s' (fresh s)) = Bearer tok"
  using assms
  by (simp add: setupGeminiConnection_def createGeminiConnection_def Let_def)

lemma setup_throws:
  "setupGeminiConnection s c True a key now = Inl e \<Longrightarrow>
     getEphemeralToken a = None \<and> (key = None \<or> key = Some []) \<and> e = NoCredentials"
  by (auto simp add: setupGeminiConnection_def createGeminiConnection_def Let_def
        split: sum.splits option.splits if_splits)

text \<open>
  Claim C5. The close of an upstream socket of a registered session whose
  downstream socket is open sets a reconnection timer of 3000 ms; when it fires,
  the attempt is suspended at the token exchange, and a token, if the exchange
  yields one, is what the new socket authenticates with. When the exchange of such
  an attempt settles and the attempt throws, the only effect is one new timer of
  2000 ms for the fallback attempt. When that timer fires, the callback calls
  \<^verbatim>\<open>setupGeminiConnection\<close> without the token: with an API key in the
  environment the new socket of the session authenticates with that key, without
  one the call throws and the error is a rejection that nothing handles. Either
  way the fallback attempt sets no timer and starts no token exchange, so no
  third attempt follows from it.
\<close>

theorem reconnect_fallback_once:
  assumes "awaiting s p = Some (AwaitReconnect c)"
    and "setupGeminiConnection (s\<lparr>awaiting := (awaiting s)(p := None)\<rparr>) c True a key now = Inl e"
    and "s1 = step decode s (TokenSettles p a key now)"
    and "s2 = step decode s1 (TimerFires (fresh s) key' now')"
  shows "s1 = s\<lparr>timers := (timers s)(fresh s \<mapsto> (FallbackTimer c, 2000)),
                 awaiting := (awaiting s)(p := None), fresh := fresh s + 1\<rparr>
         \<and> s2 = (case setupGeminiConnection (clearTimer s1 (fresh s)) c False AuthThrows key' now' of
                  Inr s' \<Rightarrow> s'
                | Inl e' \<Rightarrow> (clearTimer s1 (fresh s))
                              \<lparr>unhandledRejections := unhandledRejections s @ [e']\<rparr>)
         \<and> (key' = Some k \<and> k \<noteq> [] \<longrightarrow>
               readyState (sockets s2 (fresh s1)) = CONNECTING
               \<and> k_clientWs (sockets s2 (fresh s1)) = c
               \<and> k_credential (sockets s2 (fresh s1)) = ApiKey k
               \<and> clientConnections s2 c = Some (fresh s1 + 2)
               \<and> gemini (heap s2 (fresh s1 + 2)) = fresh s1
               \<and> unhandledRejections s2 = unhandledRejections s)
         \<and> (key' = None \<or> key' = Some [] \<longrightarrow>
               s2 = s1\<lparr>timers := (timers s)(fresh s := None),
                       unhandledRejections := unhandledRejections s @ [NoCredentials]\<rparr>)
         \<and> timers s2 = (timers s)(fresh s := None)
         \<and> awaiting s2 = (awaiting s)(p := None)
         \<and> (k_clientWs (sockets t g) = c' \<and> clientConnections t c' = Some r \<and> clients t c' = OPEN
               \<longrightarrow> timers (step decode t (GeminiClose g)) (fresh t) = Some (ReconnectTimer c', 3000)
                   \<and> reconnectTimeout (heap (step decode t (GeminiClose g)) r) = Some (fresh t))
         \<and> (timers t h = Some (ReconnectTimer c', d) \<longrightarrow>
               step decode t (TimerFires h key'' n) = suspend (clearTimer t h) (AwaitReconnect c'))
         \<and> (awaiting t q = Some (AwaitReconnect c') \<and> getEphemeralToken b = Some tok \<longrightarrow>
               k_credential (sockets (step decode t (TokenSettles q b key'' n)) (fresh t)) = Bearer tok)"
proof -
  have s1: "s1 = s\<lparr>timers := (timers s)(fresh s \<mapsto> (FallbackTimer c, 2000)),
                 awaiting := (awaiting s)(p := None), fresh := fresh s + 1\<rparr>"
    using assms(1,2) unfolding assms(3)
    by (simp add: onTokenSettled_def setTimer_def Let_def)
  have t1: "timers s1 (fresh s) = Some (FallbackTimer c, 2000)"
    by (simp add: s1)
  let ?s = "clearTimer s1 (fresh s)"
  have s2: "s2 = (case setupGeminiConnection ?s c False AuthThrows key' now' of
                  Inr s' \<Rightarrow> s'
                | Inl e' \<Rightarrow> ?s\<lparr>unhandledRejections := unhandledRejections s @ [e']\<rparr>)"
    unfolding assms(4) using t1
    by (simp add: onTimer_def Let_def) (auto simp add: s1 clearTimer_def split: sum.splits)
  have f: "fresh ?s = fresh s1" "timers ?s = (timers s)(fresh s := None)"
    "awaiting ?s = (awaiting s)(p := None)" "unhandledRejections ?s = unhandledRejections s"
    by (simp_all add: s1 clearTimer_def)
  have keyed: "key' = Some k \<and> k \<noteq> [] \<longrightarrow>
               readyState (sockets s2 (fresh s1)) = CONNECTING
               \<and> k_clientWs (sockets s2 (fresh s1)) = c
               \<and> k_credential (sockets s2 (fresh s1)) = ApiKey k
               \<and> clientConnections s2 c = Some (fresh s1 + 2)
               \<and> gemini (heap s2 (fresh s1 + 2)) = fresh s1
               \<and> unhandledRejections s2 = unhandledRejections s"
  proof
    assume k: "key' = Some k \<and> k \<noteq> []"
    then obtain s' where s': "setupGeminiConnection ?s c False AuthThrows key' now' = Inr s'"
      "readyState (sockets s' (fresh ?s)) = CONNECTING"
      "k_clientWs (sockets s' (fresh ?s)) = c"
      "k_credential (sockets s' (fresh ?s)) = ApiKey k"
      "clientConnections s' c = Some (fresh ?s + 2)"
      "gemini (heap s' (fresh ?s + 2)) = fresh ?s"
      using setup_with_key [of key' k ?s c AuthThrows now'] by blast
    have "s2 = s'" by (simp add: s2 s'(1))
    with s' setup_timers [OF s'(1)] f
    show "readyState (sockets s2 (fresh s1)) = CONNECTING
               \<and> k_clientWs (sockets s2 (fresh s1)) = c
               \<and> k_credential (sockets s2 (fresh s1)) = ApiKey k
               \<and> clientConnections s2 c = Some (fresh s1 + 2)
               \<and> gemini (heap s2 (fresh s1 + 2)) = fresh s1
               \<and> unhandledRejections s2 = unhandledRejections s"
      by simp
  qed
  have unkeyed: "key' = None \<or> key' = Some [] \<longrightarrow>
               s2 = s1\<lparr>timers := (timers s)(fresh s := None),
                       unhandledRejections := unhandledRejections s @ [NoCredentials]\<rparr>"
  proof
    assume "key' = None \<or> key' = Some []"
    then have "setupGeminiConnection ?s c False AuthThrows key' now' = Inl NoCredentials"
      using setup_static_key [of ?s c AuthThrows key' now' AuthThrows] by simp
    then show "s2 = s1\<lparr>timers := (timers s)(fresh s := None),
                       unhandledRejections := unhandledRejections s @ [NoCredentials]\<rparr>"
      by (simp add: s2) (simp add: s1 clearTimer_def)
  qed
  have frame: "timers s2 = (timers s)(fresh s := None) \<and> awaiting s2 = (awaiting s)(p := None)"
  proof (cases "setupGeminiConnection ?s c False AuthThrows key' now'")
    case (Inl e')
    then show ?thesis by (simp add: s2 f)
  next
    case (Inr s')
    then show ?thesis using setup_timers [OF Inr] by (simp add: s2 f)
  qed
  have sched: "k_clientWs (sockets t g) = c' \<and> clientConnections t c' = Some r \<and> clients t c' = OPEN
               \<longrightarrow> timers (step decode t (GeminiClose g)) (fresh t) = Some (ReconnectTimer c', 3000)
                   \<and> reconnectTimeout (heap (step decode t (GeminiClose g)) r) = Some (fresh t)"
    by (auto simp add: onGeminiClose_def lookup_def modify_def sendClient_def setReadyState_def
          setTimer_def clearTimer_def Let_def split: option.splits)
  have fires: "timers t h = Some (ReconnectTimer c', d) \<longrightarrow>
               step decode t (TimerFires h key'' n) = suspend (clearTimer t h) (AwaitReconnect c')"
    by (simp add: onTimer_def)
  have prefers: "awaiting t q = Some (AwaitReconnect c') \<and> getEphemeralToken b = Some tok \<longrightarrow>
               k_credential (sockets (step decode t (TokenSettles q b key'' n)) (fresh t)) = Bearer tok"
    by (simp add: onTokenSettled_def setupGeminiConnection_def createGeminiConnection_def Let_def)
  from s1 s2 keyed unkeyed frame sched fires prefers show ?thesis by blast
qed

theorem reconnect_fallback_once_witness:
  "awaiting reconnecting 6 = Some (AwaitReconnect 0)
   \<and> setupGeminiConnection (reconnecting\<lparr>awaiting := (awaiting reconnecting)(6 := None)\<rparr>)
         0 True AuthThrows None 3100 = Inl NoCredentials
   \<and> timers (step id reconnecting (TokenSettles 6 AuthThrows None 3100)) 7
       = Some (FallbackTimer 0, 2000)
   \<and> unhandledRejections
         (run id reconnecting [TokenSettles 6 AuthThrows None 3100, TimerFires 7 None 5100])
       = [NoCredentials]
   \<and> timers (run id reconnecting [TokenSettles 6 AuthThrows None 3100, TimerFires 7 None 5100]) 7
       = None
   \<and> k_credential (sockets
         (run id reconnecting
            [TokenSettles 6 AuthThrows None 3100, TimerFires 7 (Some (str ''key'')) 5100]) 8)
       = ApiKey (str ''key'')
   \<and> clientConnections
         (run id reconnecting
            [TokenSettles 6 AuthThrows None 3100, TimerFires 7 (Some (str ''key'')) 5100]) 0
       = Some 10
   \<and> timers (step id opened (GeminiClose 1)) 5 = Some (ReconnectTimer 0, 3000)
   \<and> step id upstreamClosed (TimerFires 5 None 3000)
       = suspend (clearTimer upstreamClosed 5) (AwaitReconnect 0)
   \<and> k_credential (sockets
         (step id awaitingReconnect (TokenSettles 6 (AccessToken (str ''token'')) None 3000)) 7)
       = Bearer (str ''token'')"
proof -
  let ?e1 = "TokenSettles 6 AuthThrows None 3100"
  have aw: "awaiting reconnecting 6 = Some (AwaitReconnect 0)"
    by (simp add: reconnecting_facts)
  have thr: "setupGeminiConnection (reconnecting\<lparr>awaiting := (awaiting reconnecting)(6 := None)\<rparr>)
         0 True AuthThrows None 3100 = Inl NoCredentials"
    by (simp add: setupGeminiConnection_def createGeminiConnection_def getEphemeralToken_def)
  have f: "fresh reconnecting = 7" by (simp add: reconnecting_facts)
  note th = reconnect_fallback_once [OF aw thr refl refl, where decode = id]
  from th have s1: "step id reconnecting ?e1 =
      reconnecting\<lparr>timers := (timers reconnecting)
                        (fresh reconnecting \<mapsto> (FallbackTimer 0, 2000)),
                    awaiting := (awaiting reconnecting)(6 := None),
                    fresh := fresh reconnecting + 1\<rparr>"
    by blast
  have f1: "fresh (step id reconnecting ?e1) = 8" unfolding s1 by (simp add: f)
  have a: "timers (step id reconnecting ?e1) 7 = Some (FallbackTimer 0, 2000)"
    unfolding s1 by (simp add: f)
  have r: "\<And>key'. run id reconnecting [?e1, TimerFires 7 key' 5100] =
      step id (step id reconnecting ?e1) (TimerFires (fresh reconnecting) key' 5100)"
    by (simp add: run_def f)
  from th [where key' = None and now' = 5100]
  have s2: "step id (step id reconnecting ?e1) (TimerFires (fresh reconnecting) None 5100) =
     (step id reconnecting ?e1)
       \<lparr>timers := (timers reconnecting)(fresh reconnecting := None),
        unhandledRejections := unhandledRejections reconnecting @ [NoCredentials]\<rparr>"
    by blast
  have b: "unhandledRejections (run id reconnecting [?e1, TimerFires 7 None 5100]) = [NoCredentials]
           \<and> timers (run id reconnecting [?e1, TimerFires 7 None 5100]) 7 = None"
    unfolding r s2 by (simp add: f reconnecting_facts)
  have ne: "str ''key'' \<noteq> []" by (simp add: str_def)
  from ne th [where key' = "Some (str ''key'')" and now' = 5100 and k = "str ''key''"]
  have keyed: "k_credential (sockets
        (step id (step id reconnecting ?e1)
           (TimerFires (fresh reconnecting) (Some (str ''key'')) 5100))
        (fresh (step id reconnecting ?e1))) = ApiKey (str ''key'')
     \<and> clientConnections
        (step id (step id reconnecting ?e1)
           (TimerFires (fresh reconnecting) (Some (str ''key'')) 5100)) 0
       = Some (fresh (step id reconnecting ?e1) + 2)"
    by blast
  have c: "k_credential (sockets
         (run id reconnecting [?e1, TimerFires 7 (Some (str ''key'')) 5100]) 8)
       = ApiKey (str ''key'')
     \<and> clientConnections
         (run id reconnecting [?e1, TimerFires 7 (Some (str ''key'')) 5100]) 0 = Some 10"
    using keyed unfolding r f1 by simp
  have o: "k_clientWs (sockets opened 1) = 0 \<and> clientConnections opened 0 = Some 3
           \<and> clients opened 0 = OPEN"
    by (simp add: opened_facts)
  have fo: "fresh opened = 5" by (simp add: opened_def eval_defs)
  from o th [where t = opened and g = 1 and c' = 0 and r = 3]
  have "timers (step id opened (GeminiClose 1)) (fresh opened) = Some (ReconnectTimer 0, 3000)"
    by blast
  then have g: "timers (step id opened (GeminiClose 1)) 5 = Some (ReconnectTimer 0, 3000)"
    unfolding fo .
  have u: "timers upstreamClosed 5 = Some (ReconnectTimer 0, 3000)"
    by (simp add: upstreamClosed_facts)
  from u th [where t = upstreamClosed and h = 5 and c' = 0 and d = 3000 and key'' = None
      and n = 3000]
  have h: "step id upstreamClosed (TimerFires 5 None 3000)
       = suspend (clearTimer upstreamClosed 5) (AwaitReconnect 0)"
    by blast
  have w: "awaiting awaitingReconnect 6 = Some (AwaitReconnect 0)
           \<and> getEphemeralToken (AccessToken (str ''token'')) = Some (str ''token'')"
    by (simp add: awaitingReconnect_facts getEphemeralToken_def str_def)
  have fa: "fresh awaitingReconnect = 7" by (simp add: awaitingReconnect_def eval_defs)
  from w th [where t = awaitingReconnect and q = 6 and c' = 0
      and b = "AccessToken (str ''token'')" and tok = "str ''token''" and key'' = None
      and n = 3000]
  have "k_credential (sockets
         (step id awaitingReconnect (TokenSettles 6 (AccessToken (str ''token'')) None 3000))
         (fresh awaitingReconnect)) = Bearer (str ''token'')"
    by blast
  then have i: "k_credential (sockets
         (step id awaitingReconnect (TokenSettles 6 (AccessToken (str ''token'')) None 3000)) 7)
       = Bearer (str ''token'')"
    unfolding fa .
  from aw thr a b c g h i show ?thesis by blast
qed

section \<open>The reconnection counter\<close>

lemmas handler_defs = onConnection_def onTokenSettled_def suspend_def onClientMessage_def onClientClose_def onGeminiOpen_def
  onGeminiPong_def onGeminiMessage_def onGeminiClose_def onGeminiError_def onTimer_def
  setupGeminiConnection_def pingTick_def flushUser_def flushAssistant_def lookup_def modify_def
  sendGemini_def sendClient_def isOpen_def setReadyState_def closeSocket_def setTimer_def
  clearTimer_def

lemma setup_frame:
  assumes "setupGeminiConnection s c u a key now = Inr s'"
  shows "fresh s' = fresh s + 3"
    and "clientConnections s' = (clientConnections s)(c \<mapsto> fresh s + 2)"
    and "\<And>r. r < fresh s \<Longrightarrow> heap s' r = heap s r"
    and "reconnectCount (heap s' (fresh s + 2)) =
           (case lookup s c of None \<Rightarrow> 0 | Some (_, ex) \<Rightarrow> reconnectCount ex + 1)"
  using assms
  by (auto simp add: setupGeminiConnection_def Let_def split: sum.splits option.splits)

lemma wf_setup:
  assumes "wellFormed s" and "setupGeminiConnection s c u a key now = Inr s'"
  shows "wellFormed s'"
  unfolding wellFormed_def
proof (intro allI impI)
  fix c' r
  assume "clientConnections s' c' = Some r"
  then have "r = fresh s + 2 \<or> clientConnections s c' = Some r"
    by (simp add: setup_frame(2) [OF assms(2)] split: if_splits)
  then have "r < fresh s + 3"
    using assms(1) by (auto simp add: wellFormed_def dest: spec [of _ c'])
  then show "r < fresh s'" by (simp add: setup_frame(1) [OF assms(2)])
qed

lemma wf_mono:
  assumes "wellFormed s"
    and "\<And>c r. clientConnections s' c = Some r \<Longrightarrow> clientConnections s c = Some r"
    and "fresh s \<le> fresh s'"
  shows "wellFormed s'"
  using assms by (fastforce simp add: wellFormed_def)

lemma wf_step: "wellFormed s \<Longrightarrow> wellFormed (step decode s e)"
proof (cases e)
  case (Connection c)
  assume wf: "wellFormed s"
  show ?thesis unfolding Connection
    by (rule wf_mono [OF wf]) (simp_all add: onConnection_def suspend_def)
next
  case (TokenSettles p a key now)
  assume wf: "wellFormed s"
  let ?s = "s\<lparr>awaiting := (awaiting s)(p := None)\<rparr>"
  have wf1: "wellFormed ?s" using wf by (simp add: wellFormed_def)
  have wf2: "\<And>e. wellFormed (?s\<lparr>unhandledRejections := e\<rparr>)"
    using wf by (simp add: wellFormed_def)
  have wf3: "\<And>c. wellFormed (snd (setTimer ?s (FallbackTimer c) 2000))"
    by (rule wf_mono [OF wf]) (simp_all add: setTimer_def)
  show ?thesis
  proof (cases "awaiting s p")
    case None
    with TokenSettles wf show ?thesis by (simp add: onTokenSettled_def)
  next
    case (Some k)
    with TokenSettles wf1 wf2 wf3 show ?thesis
      by (cases k)
         (auto simp add: onTokenSettled_def Let_def split: sum.splits intro: wf_setup)
  qed
next
  case (ClientMessage c m now)
  assume wf: "wellFormed s"
  show ?thesis unfolding ClientMessage
    by (rule wf_mono [OF wf]; cases m)
       (auto simp add: handler_defs Let_def split: option.splits if_splits)
next
  case (ClientClose c)
  assume wf: "wellFormed s"
  show ?thesis unfolding ClientClose
    by (rule wf_mono [OF wf])
       (auto simp add: handler_defs Let_def split: option.splits if_splits)
next
  case (GeminiOpen g)
  assume wf: "wellFormed s"
  show ?thesis unfolding GeminiOpen
    by (rule wf_mono [OF wf])
       (auto simp add: handler_defs Let_def split: option.splits if_splits)
next
  case (GeminiPong g now)
  assume wf: "wellFormed s"
  show ?thesis unfolding GeminiPong
    by (rule wf_mono [OF wf])
       (auto simp add: handler_defs Let_def split: option.splits if_splits)
next
  case (GeminiMessage g m now)
  assume wf: "wellFormed s"
  show ?thesis unfolding GeminiMessage
    by (rule wf_mono [OF wf])
       (auto simp add: handler_defs Let_def split: option.splits if_splits gemini_msg.splits prod.splits)
next
  case (GeminiClose g)
  assume wf: "wellFormed s"
  show ?thesis unfolding GeminiClose
    by (rule wf_mono [OF wf])
       (auto simp add: handler_defs Let_def split: option.splits if_splits)
next
  case (GeminiError g m)
  assume wf: "wellFormed s"
  show ?thesis unfolding GeminiError
    by (rule wf_mono [OF wf])
       (auto simp add: handler_defs Let_def split: option.splits if_splits)
next
  case (TimerFires h key now)
  assume wf: "wellFormed s"
  then have wf1: "wellFormed (clearTimer s h)" by (simp add: wellFormed_def clearTimer_def)
  show ?thesis
  proof (cases "timers s h")
    case None
    with TimerFires wf show ?thesis by (simp add: onTimer_def)
  next
    case (Some p)
    obtain t d where p: "p = (t, d)" by (cases p)
    show ?thesis
    proof (cases t)
      case (PingTimer g r)
      with TimerFires Some p wf show ?thesis
        by (auto simp add: onTimer_def wellFormed_def pingTick_def modify_def sendGemini_def
              closeSocket_def setReadyState_def Let_def)
    next
      case (ReconnectTimer c)
      have "wellFormed (suspend (clearTimer s h) (AwaitReconnect c))"
        by (rule wf_mono [OF wf]) (simp_all add: suspend_def clearTimer_def)
      with ReconnectTimer TimerFires Some p show ?thesis
        by (simp add: onTimer_def)
    next
      case (FallbackTimer c)
      have "\<And>e. wellFormed ((clearTimer s h)\<lparr>unhandledRejections := e\<rparr>)"
        by (rule wf_mono [OF wf]) (simp_all add: clearTimer_def)
      with FallbackTimer TimerFires Some p wf1 show ?thesis
        by (auto simp add: onTimer_def Let_def split: sum.splits intro: wf_setup)
    qed
  qed
qed


lemma wf_run: "wellFormed s \<Longrightarrow> wellFormed (run decode s es)"
  unfolding run_def by (induction es arbitrary: s) (simp_all add: wf_step)

lemma wf_start: "wellFormed start"
  by (simp add: wellFormed_def start_def)

lemma count_setup:
  assumes "wellFormed s" and "lookup s c = Some (r, con)"
    and "setupGeminiConnection s c' u a key now = Inr s'"
    and "lookup s' c = Some (r', con')"
  shows "if r' = r then reconnectCount con' = reconnectCount con
         else reconnectCount con' = reconnectCount con + 1"
proof -
  have r: "r < fresh s" "clientConnections s c = Some r" "con = heap s r"
    using assms(1,2) by (auto simp add: wellFormed_def lookup_def)
  have r': "clientConnections s' c = Some r'" "con' = heap s' r'"
    using assms(4) by (auto simp add: lookup_def)
  show ?thesis
  proof (cases "c' = c")
    case True
    then have "r' = fresh s + 2" using r'(1) by (simp add: setup_frame(2) [OF assms(3)])
    moreover have "reconnectCount (heap s' (fresh s + 2)) = reconnectCount con + 1"
      using True assms(2) setup_frame(4) [OF assms(3)] by simp
    ultimately show ?thesis using r(1) r'(2) by simp
  next
    case False
    then have "r' = r" using r'(1) r(2) by (simp add: setup_frame(2) [OF assms(3)])
    then show ?thesis using r r'(2) by (simp add: setup_frame(3) [OF assms(3)])
  qed
qed

lemma count_frame:
  assumes "lookup s c = Some (r, con)" and "lookup s' c = Some (r', con')"
    and "\<And>c r. clientConnections s' c = Some r \<Longrightarrow> clientConnections s c = Some r"
    and "\<And>x. reconnectCount (heap s' x) = reconnectCount (heap s x)"
  shows "r' = r \<and> reconnectCount con' = reconnectCount con"
  using assms(1,2) assms(3) [of c r'] assms(4) [of r] by (auto simp add: lookup_def)

lemma count_step:
  assumes wf: "wellFormed s" and l: "lookup s c = Some (r, con)"
    and l': "lookup (step decode s e) c = Some (r', con')"
  shows "if r' = r then reconnectCount con' = reconnectCount con
         else reconnectCount con' = reconnectCount con + 1"
proof -
  have frame: "(\<And>c r. clientConnections (step decode s e) c = Some r
                     \<Longrightarrow> clientConnections s c = Some r)
      \<Longrightarrow> (\<And>x. reconnectCount (heap (step decode s e) x) = reconnectCount (heap s x))
      \<Longrightarrow> r' = r \<and> reconnectCount con' = reconnectCount con"
    using count_frame [OF l l'] by blast
  show ?thesis
  proof (cases e)
    case (Connection c')
    have "r' = r \<and> reconnectCount con' = reconnectCount con"
      by (rule frame) (simp_all add: Connection onConnection_def suspend_def)
    then show ?thesis by simp
  next
    case (TokenSettles p a key now)
    let ?s = "s\<lparr>awaiting := (awaiting s)(p := None)\<rparr>"
    have wf0: "wellFormed ?s" using wf by (simp add: wellFormed_def)
    have l0: "lookup ?s c = Some (r, con)" using l by (simp add: lookup_def)
    show ?thesis
    proof (cases "awaiting s p")
      case None
      with TokenSettles l l' show ?thesis by (simp add: onTokenSettled_def)
    next
      case (Some k)
      show ?thesis
      proof (cases k)
        case (AwaitConnection c')
        show ?thesis
          using l' l0 count_setup [OF wf0 l0, of c' _ a key now _ r' con']
          unfolding TokenSettles
          by (auto simp add: Some AwaitConnection onTokenSettled_def Let_def lookup_def
                split: sum.splits)
      next
        case (AwaitReconnect c')
        show ?thesis
          using l' l0 count_setup [OF wf0 l0, of c' True a key now _ r' con']
          unfolding TokenSettles
          by (auto simp add: Some AwaitReconnect onTokenSettled_def Let_def setTimer_def
                lookup_def split: sum.splits)
      qed
    qed
  next
    case (ClientMessage c' m now)
    have "r' = r \<and> reconnectCount con' = reconnectCount con"
      unfolding ClientMessage
      by (rule frame; cases m)
         (auto simp add: ClientMessage handler_defs Let_def split: option.splits if_splits)
    then show ?thesis by simp
  next
    case (ClientClose c')
    have "r' = r \<and> reconnectCount con' = reconnectCount con"
      by (rule frame)
         (auto simp add: ClientClose handler_defs Let_def split: option.splits if_splits)
    then show ?thesis by simp
  next
    case (GeminiOpen g)
    have "r' = r \<and> reconnectCount con' = reconnectCount con"
      by (rule frame)
         (auto simp add: GeminiOpen handler_defs Let_def split: option.splits if_splits)
    then show ?thesis by simp
  next
    case (GeminiPong g now)
    have "r' = r \<and> reconnectCount con' = reconnectCount con"
      by (rule frame)
         (auto simp add: GeminiPong handler_defs Let_def split: option.splits if_splits)
    then show ?thesis by simp
  next
    case (GeminiMessage g m now)
    have "r' = r \<and> reconnectCount con' = reconnectCount con"
      by (rule frame)
         (auto simp add: GeminiMessage handler_defs Let_def
            split: option.splits if_splits gemini_msg.splits prod.splits)
    then show ?thesis by simp
  next
    case (GeminiClose g)
    have "r' = r \<and> reconnectCount con' = reconnectCount con"
      by (rule frame)
         (auto simp add: GeminiClose handler_defs Let_def split: option.splits if_splits)
    then show ?thesis by simp
  next
    case (GeminiError g m)
    have "r' = r \<and> reconnectCount con' = reconnectCount con"
      by (rule frame)
         (auto simp add: GeminiError handler_defs Let_def split: option.splits if_splits)
    then show ?thesis by simp
  next
    case (TimerFires h key now)
    let ?s = "clearTimer s h"
    have wf0: "wellFormed ?s" using wf by (simp add: wellFormed_def clearTimer_def)
    have l0: "lookup ?s c = Some (r, con)" using l by (simp add: lookup_def clearTimer_def)
    show ?thesis
    proof (cases "timers s h")
      case None
      with TimerFires l l' show ?thesis by (simp add: onTimer_def)
    next
      case (Some p)
      obtain t d where p: "p = (t, d)" by (cases p)
      show ?thesis
      proof (cases t)
        case (PingTimer g x)
        have "r' = r \<and> reconnectCount con' = reconnectCount con"
          by (rule frame)
             (auto simp add: TimerFires Some p PingTimer onTimer_def pingTick_def modify_def
                sendGemini_def closeSocket_def setReadyState_def Let_def split: if_splits)
        then show ?thesis by simp
      next
        case (ReconnectTimer c')
        have "r' = r \<and> reconnectCount con' = reconnectCount con"
          by (rule frame)
             (simp_all add: TimerFires Some p ReconnectTimer onTimer_def suspend_def
                clearTimer_def)
        then show ?thesis by simp
      next
        case (FallbackTimer c')
        show ?thesis
          using l' l0 count_setup [OF wf0 l0, of c' False AuthThrows key now _ r' con']
          unfolding TimerFires
          by (auto simp add: Some p FallbackTimer onTimer_def Let_def lookup_def
                clearTimer_def split: sum.splits)
      qed
    qed
  qed
qed

text \<open>
  Claim C4. In every state reachable from the start of the server: a connection
  established for a downstream socket that has no record gets the count 0; one
  established for a socket that has a record gets the count of that record plus 1;
  and across any single event, as long as the session stays registered, the count
  is unchanged if the record is the same and is the old count plus 1 if the record
  was replaced. So the count is never reset and never decreases.
\<close>

theorem reconnectCount_increments:
  assumes "s = run decode start es"
  shows "(lookup s c = None \<and> setupGeminiConnection s c u a key now = Inr s1 \<longrightarrow>
            (\<exists>r1 con1. lookup s1 c = Some (r1, con1) \<and> reconnectCount con1 = 0))
         \<and> (lookup s c = Some (r, con) \<and> setupGeminiConnection s c u a key now = Inr s1 \<longrightarrow>
            (\<exists>r1 con1. lookup s1 c = Some (r1, con1)
                        \<and> reconnectCount con1 = reconnectCount con + 1))
         \<and> (lookup s c = Some (r, con) \<and> lookup (step decode s e) c = Some (r', con') \<longrightarrow>
            (if r' = r then reconnectCount con' = reconnectCount con
             else reconnectCount con' = reconnectCount con + 1))"
proof -
  have wf: "wellFormed s" unfolding assms by (rule wf_run [OF wf_start])
  have first: "lookup s c = None \<and> setupGeminiConnection s c u a key now = Inr s1 \<longrightarrow>
            (\<exists>r1 con1. lookup s1 c = Some (r1, con1) \<and> reconnectCount con1 = 0)"
  proof
    assume h: "lookup s c = None \<and> setupGeminiConnection s c u a key now = Inr s1"
    then have "lookup s1 c = Some (fresh s + 2, heap s1 (fresh s + 2))"
      using setup_frame(2) [of s c u a key now s1] by (simp add: lookup_def)
    moreover have "reconnectCount (heap s1 (fresh s + 2)) = 0"
      using h setup_frame(4) [of s c u a key now s1] by simp
    ultimately show "\<exists>r1 con1. lookup s1 c = Some (r1, con1) \<and> reconnectCount con1 = 0"
      by blast
  qed
  have again: "lookup s c = Some (r, con) \<and> setupGeminiConnection s c u a key now = Inr s1 \<longrightarrow>
            (\<exists>r1 con1. lookup s1 c = Some (r1, con1)
                        \<and> reconnectCount con1 = reconnectCount con + 1)"
  proof
    assume h: "lookup s c = Some (r, con) \<and> setupGeminiConnection s c u a key now = Inr s1"
    then have "lookup s1 c = Some (fresh s + 2, heap s1 (fresh s + 2))"
      using setup_frame(2) [of s c u a key now s1] by (simp add: lookup_def)
    moreover have "reconnectCount (heap s1 (fresh s + 2)) = reconnectCount con + 1"
      using h setup_frame(4) [of s c u a key now s1] by simp
    ultimately show "\<exists>r1 con1. lookup s1 c = Some (r1, con1)
                        \<and> reconnectCount con1 = reconnectCount con + 1"
      by blast
  qed
  have keep: "lookup s c = Some (r, con) \<and> lookup (step decode s e) c = Some (r', con') \<longrightarrow>
            (if r' = r then reconnectCount con' = reconnectCount con
             else reconnectCount con' = reconnectCount con + 1)"
    using count_step [OF wf] by blast
  from first again keep show ?thesis by blast
qed

theorem reconnectCount_increments_witness:
  "lookup (run id start []) 0 = None
   \<and> (\<exists>s1. setupGeminiConnection (run id start []) 0 True AuthThrows (Some (str ''key'')) 0 = Inr s1
         \<and> (\<exists>r1 con1. lookup s1 0 = Some (r1, con1) \<and> reconnectCount con1 = 0))
   \<and> lookup awaitingReconnect 0 = Some (3, heap awaitingReconnect 3)
   \<and> reconnectCount (heap awaitingReconnect 3) = 0
   \<and> (\<exists>s1. setupGeminiConnection awaitingReconnect 0 True AuthThrows (Some (str ''key'')) 3000
           = Inr s1
         \<and> (\<exists>r1 con1. lookup s1 0 = Some (r1, con1) \<and> reconnectCount con1 = 1))
   \<and> (\<exists>con'. lookup (step id awaitingReconnect
                          (TokenSettles 6 AuthThrows (Some (str ''key'')) 3000)) 0 = Some (9, con')
         \<and> reconnectCount con' = 1)"
proof -
  let ?s0 = "run id start []"
  let ?e = "TokenSettles 6 AuthThrows (Some (str ''key'')) 3000"
  have n: "lookup ?s0 0 = None" by (simp add: run_def start_def lookup_def)
  obtain s1 where s1: "setupGeminiConnection ?s0 0 True AuthThrows (Some (str ''key'')) 0 = Inr s1"
    by (simp add: setupGeminiConnection_def createGeminiConnection_def getEphemeralToken_def
          str_def Let_def)
  have a: "\<exists>r1 con1. lookup s1 0 = Some (r1, con1) \<and> reconnectCount con1 = 0"
    using n s1 reconnectCount_increments [OF refl, where decode = id
        and es = "[]" and c = 0 and u = True and a = AuthThrows and key = "Some (str ''key'')"
        and now = 0 and ?s1.0 = s1]
    by blast
  have l: "lookup awaitingReconnect 0 = Some (3, heap awaitingReconnect 3)"
    by (simp add: lookup_def awaitingReconnect_facts)
  have z: "reconnectCount (heap awaitingReconnect 3) = 0" by (simp add: awaitingReconnect_facts)
  obtain s2 where s2:
    "setupGeminiConnection awaitingReconnect 0 True AuthThrows (Some (str ''key'')) 3000 = Inr s2"
    by (simp add: setupGeminiConnection_def createGeminiConnection_def getEphemeralToken_def
          str_def Let_def)
  note th = reconnectCount_increments [OF awaitingReconnect_def, where c = 0
      and r = 3 and con = "heap awaitingReconnect 3"]
  have b: "\<exists>r1 con1. lookup s2 0 = Some (r1, con1) \<and> reconnectCount con1 = 1"
    using l s2 z th [where u = True and a = AuthThrows and key = "Some (str ''key'')"
        and now = 3000 and ?s1.0 = s2]
    by simp
  have l': "lookup (step id awaitingReconnect ?e) 0 =
              Some (9, heap (step id awaitingReconnect ?e) 9)"
    using awaitingReconnect_facts(4) by (simp add: lookup_def)
  have c: "reconnectCount (heap (step id awaitingReconnect ?e) 9) = 1"
    using l l' z th [where e = ?e and r' = 9 and con' = "heap (step id awaitingReconnect ?e) 9"]
    by simp
  from n s1 a l z s2 b l' c show ?thesis by blast
qed

section \<open>The cap of the log on the user path\<close>

lemma user_turn_appends:
  assumes "clientConnections s 0 = Some r" and "isOpen s (gemini (heap s r))"
    and "s' = run decode s userTurn"
  shows "clientConnections s' 0 = Some r \<and> isOpen s' (gemini (heap s' r))
         \<and> conversationLog (heap s' r) = conversationLog (heap s r)
         \<and> length (arrays s' (conversationLog (heap s r))) =
             length (arrays s (conversationLog (heap s r))) + 1"
proof -
  have ne: "str ''hola'' \<noteq> []" by (simp add: str_def)
  show ?thesis
    using assms(1,2) ne trim_hola_nonempty [of "currentUserText (heap s r)"]
    unfolding assms(3) run_def userTurn_def
    by (auto simp add: onClientMessage_def flushUser_def lookup_def modify_def sendGemini_def
          isOpen_def Let_def)
qed

lemma user_turns_append:
  assumes "clientConnections s 0 = Some r" and "isOpen s (gemini (heap s r))"
    and "s' = run decode s (concat (replicate n userTurn))"
  shows "clientConnections s' 0 = Some r \<and> isOpen s' (gemini (heap s' r))
         \<and> conversationLog (heap s' r) = conversationLog (heap s r)
         \<and> length (arrays s' (conversationLog (heap s r))) =
             length (arrays s (conversationLog (heap s r))) + n"
  using assms
proof (induction n arbitrary: s s')
  case 0
  then show ?case by (simp add: run_def)
next
  case (Suc n)
  let ?s1 = "run decode s userTurn"
  have one: "clientConnections ?s1 0 = Some r \<and> isOpen ?s1 (gemini (heap ?s1 r))
         \<and> conversationLog (heap ?s1 r) = conversationLog (heap s r)
         \<and> length (arrays ?s1 (conversationLog (heap s r))) =
             length (arrays s (conversationLog (heap s r))) + 1"
    using user_turn_appends [OF Suc.prems(1,2)] by simp
  have s': "s' = run decode ?s1 (concat (replicate n userTurn))"
    using Suc.prems(3) by (simp add: run_def)
  from Suc.IH [of ?s1 s'] one s' show ?case by simp
qed

text \<open>The assistant branch does cap the log: after a flush it holds at most 30 entries.\<close>

lemma flushAssistant_caps:
  assumes "trim (currentAssistantText (heap s r)) \<noteq> []"
  shows "length (arrays (flushAssistant s r now) (conversationLog (heap s r))) \<le> 30"
  using assms by (simp add: flushAssistant_def modify_def Let_def)

text \<open>
  Claim C3, at an input where the code departs from it. Only the assistant branch
  of the upstream message handler trims the log to 30 entries; the
  \<^verbatim>\<open>turn_complete\<close> branch pushes a user entry and does not trim. After 31
  user turns of a session whose upstream socket is open, with no assistant turn in
  between, the log holds 31 entries.
\<close>

theorem user_turns_exceed_cap:
  "length (arrays (run id opened (concat (replicate 31 userTurn)))
             (conversationLog (heap opened 3))) = 31"
  using user_turns_append [of opened 3 _ id 31]
  by (simp add: opened_facts isOpen_def)

section \<open>Timers after the downstream socket closed\<close>

text \<open>The two timers whose handles the record keeps are cleared when the downstream socket closes.\<close>

lemma client_close_clears_stored_timers:
  assumes "lookup s c = Some (r, connection)"
  shows "reconnectTimeout connection = Some h \<longrightarrow> timers (onClientClose s c) h = None"
    and "pingInterval connection = Some h \<longrightarrow> timers (onClientClose s c) h = None"
  using assms
  by (auto simp add: onClientClose_def clearTimer_def closeSocket_def setReadyState_def
        sendGemini_def Let_def split: option.splits)

text \<open>
  Claim C2, at an input where the code departs from it. The handle of the fallback
  timer is kept nowhere, so the close handler of the downstream socket cannot
  clear it. In the run \<open>tornDown\<close> the session has been removed and the
  downstream socket is closed, yet fallback timer 7 is still pending; when it
  fires, \<^verbatim>\<open>setupGeminiConnection\<close> runs for the closed socket, and here its
  error becomes a rejection that nothing handles.
\<close>

theorem fallback_timer_survives_client_close:
  "clientConnections tornDown 0 = None
   \<and> clients tornDown 0 = CLOSED
   \<and> timers tornDown 7 = Some (FallbackTimer 0, 2000)
   \<and> unhandledRejections tornDown = []
   \<and> unhandledRejections (step id tornDown (TimerFires 7 None 5100)) = [NoCredentials]"
  by (simp add: tornDown_def reconnecting_def upstreamClosed_def eval_defs)

section \<open>Superseded upstream sockets\<close>

lemma single_shrink:
  assumes "single s" and "\<And>c x. holds s' c x \<Longrightarrow> holds s c x"
  shows "single s'"
  using assms unfolding single_def by blast

lemma single_transfer:
  assumes "single s" and "holds s c x0"
    and "\<And>c' x. holds s' c' x \<Longrightarrow> (holds s c' x \<and> (c' = c \<longrightarrow> x \<noteq> x0)) \<or> (c' = c \<and> x = y)"
  shows "single s'"
  unfolding single_def
proof (intro allI impI)
  fix c' x z
  assume h: "holds s' c' x \<and> holds s' c' z"
  have one: "\<And>w. holds s' c' w \<Longrightarrow> (c' \<noteq> c \<and> holds s c' w) \<or> (c' = c \<and> w = y)"
  proof -
    fix w assume "holds s' c' w"
    from assms(3) [OF this] show "(c' \<noteq> c \<and> holds s c' w) \<or> (c' = c \<and> w = y)"
      using assms(1,2) unfolding single_def by blast
  qed
  from one [of x] one [of z] h show "x = z"
    using assms(1) unfolding single_def by blast
qed

lemma single_new:
  assumes "single s" and "\<And>x. \<not> holds s c x"
    and "\<And>c' x. holds s' c' x \<Longrightarrow> holds s c' x \<or> (c' = c \<and> x = y)"
  shows "single s'"
  unfolding single_def
proof (intro allI impI)
  fix c' x z
  assume h: "holds s' c' x \<and> holds s' c' z"
  from assms(3) [of c' x] assms(3) [of c' z] h assms(2)
  have "(holds s c' x \<and> holds s c' z) \<or> (x = y \<and> z = y)" by blast
  then show "x = z" using assms(1) unfolding single_def by blast
qed


lemma invariant_shrink:
  assumes inv: "invariant s"
    and lv: "\<And>c g. live s' c g \<Longrightarrow> live s c g"
    and tm: "\<And>h t d. timers s' h = Some (t, d) \<Longrightarrow>
               timers s h = Some (t, d) \<or> ((\<exists>g r. t = PingTimer g r) \<and> h < fresh s')"
    and aw: "\<And>p k. awaiting s' p = Some k \<Longrightarrow> awaiting s p = Some k"
    and rg: "\<And>c r. clientConnections s' c = Some r \<Longrightarrow>
               clientConnections s c = Some r \<and> gemini (heap s' r) = gemini (heap s r)"
    and fr: "fresh s \<le> fresh s'"
    and ac: "set (accepted s) \<subseteq> set (accepted s')"
  shows "invariant s'"
proof -
  have hs: "\<And>c x. holds s' c x \<Longrightarrow> holds s c x"
  proof -
    fix c x assume h: "holds s' c x"
    show "holds s c x"
    proof (cases x)
      case (Socket g)
      with h lv show ?thesis by simp
    next
      case (Timer t)
      with h tm [of t] show ?thesis by auto
    next
      case (Call q)
      with h aw [of q] show ?thesis by auto
    qed
  qed
  have wf: "wellFormed s'"
    using inv rg fr unfolding invariant_def wellFormed_def by (meson less_le_trans)
  have sg: "single s'" using inv hs unfolding invariant_def by (blast intro: single_shrink)
  have cu: "current s'"
    using inv lv rg unfolding invariant_def current_def by metis
  have un: "unused s'"
    unfolding unused_def
  proof (intro allI impI)
    fix i assume i: "fresh s' \<le> i"
    then have i0: "fresh s \<le> i" using fr by simp
    have old: "readyState (sockets s i) = CLOSED \<and> timers s i = None \<and> awaiting s i = None"
      using inv i0 unfolding invariant_def unused_def by blast
    have a: "readyState (sockets s' i) = CLOSED"
    proof (rule ccontr)
      assume "readyState (sockets s' i) \<noteq> CLOSED"
      then have "live s' (k_clientWs (sockets s' i)) i" by (simp add: live_def)
      then have "live s (k_clientWs (sockets s' i)) i" by (rule lv)
      with old show False by (simp add: live_def)
    qed
    have b: "timers s' i = None"
    proof (cases "timers s' i")
      case None then show ?thesis .
    next
      case (Some td)
      obtain t d where "td = (t, d)" by (cases td)
      with Some tm [of i t d] old i show ?thesis by auto
    qed
    have c: "awaiting s' i = None"
      using aw [of i] old by (cases "awaiting s' i") auto
    from a b c show "readyState (sockets s' i) = CLOSED \<and> timers s' i = None \<and> awaiting s' i = None"
      by blast
  qed
  have uk: "unknown s'"
    using inv hs ac unfolding invariant_def unknown_def by blast
  from wf sg cu un uk show ?thesis unfolding invariant_def by blast
qed

lemmas step_defs = onClientMessage_def onClientClose_def onGeminiOpen_def
  onGeminiPong_def onGeminiMessage_def onGeminiClose_def onGeminiError_def
  pingTick_def flushUser_def flushAssistant_def lookup_def modify_def
  sendGemini_def sendClient_def isOpen_def setReadyState_def closeSocket_def setTimer_def
  clearTimer_def live_def

lemma inv_ClientMessage: "invariant s \<Longrightarrow> invariant (step decode s (ClientMessage c m now))"
  by (erule invariant_shrink; cases m)
     (auto simp add: step_defs Let_def split: option.splits if_splits)

lemma inv_ClientClose: "invariant s \<Longrightarrow> invariant (step decode s (ClientClose c))"
  by (erule invariant_shrink)
     (auto simp add: step_defs Let_def split: option.splits if_splits)

lemma inv_GeminiPong: "invariant s \<Longrightarrow> invariant (step decode s (GeminiPong g now))"
  by (erule invariant_shrink)
     (auto simp add: step_defs Let_def split: option.splits if_splits)

lemma inv_GeminiMessage: "invariant s \<Longrightarrow> invariant (step decode s (GeminiMessage g m now))"
  by (erule invariant_shrink)
     (auto simp add: step_defs Let_def split: option.splits if_splits gemini_msg.splits prod.splits)

lemma inv_GeminiError:
  "invariant s \<Longrightarrow> readyState (sockets s g) \<noteq> CLOSED \<Longrightarrow> invariant (step decode s (GeminiError g m))"
  by (erule invariant_shrink)
     (auto simp add: step_defs Let_def split: option.splits if_splits)

lemma inv_GeminiOpen:
  "invariant s \<Longrightarrow> readyState (sockets s g) = CONNECTING \<Longrightarrow> invariant (step decode s (GeminiOpen g))"
  by (erule invariant_shrink)
     (auto simp add: step_defs Let_def split: option.splits if_splits)


lemma invariant_add:
  assumes inv: "invariant s"
    and free: "\<And>x. \<not> holds s c x"
    and hs: "\<And>c' x. holds s' c' x \<Longrightarrow> holds s c' x \<or> (c' = c \<and> x = y)"
    and rg: "\<And>c' r. clientConnections s' c' = Some r \<Longrightarrow>
               c' = c \<or> (clientConnections s c' = Some r \<and> gemini (heap s' r) = gemini (heap s r))"
    and sk: "\<And>g r. y = Socket g \<Longrightarrow> clientConnections s' c = Some r \<Longrightarrow>
               gemini (heap s' r) = g"
    and wf: "wellFormed s'"
    and un: "unused s'"
    and ac: "set (accepted s) \<subseteq> set (accepted s')"
    and cin: "c \<in> set (accepted s')"
  shows "invariant s'"
proof -
  have sg: "single s'"
    using inv free hs unfolding invariant_def by (blast intro: single_new)
  have cu: "current s'"
    unfolding current_def
  proof (intro allI impI)
    fix c' r g
    assume a: "clientConnections s' c' = Some r \<and> live s' c' g"
    then have h: "holds s' c' (Socket g)" by simp
    show "gemini (heap s' r) = g"
    proof (cases "c' = c")
      case True
      with hs [OF h] free have "y = Socket g" by blast
      with sk a True show ?thesis by blast
    next
      case False
      with hs [OF h] have "live s c' g" by simp
      moreover from rg a False
      have "clientConnections s c' = Some r \<and> gemini (heap s' r) = gemini (heap s r)" by blast
      ultimately show ?thesis using inv unfolding invariant_def current_def by metis
    qed
  qed
  have uk: "unknown s'"
    using inv hs ac cin unfolding invariant_def unknown_def by blast
  from wf sg cu un uk show ?thesis unfolding invariant_def by blast
qed

lemma invariant_free:
  assumes "invariant s" and "holds s c x0"
    and "\<And>c' x. holds s' c' x \<Longrightarrow> holds s c' x \<and> \<not> (c' = c \<and> x = x0)"
  shows "\<not> holds s' c x"
  using assms unfolding invariant_def single_def by blast

lemma invariant_known: "invariant s \<Longrightarrow> holds s c x \<Longrightarrow> c \<in> set (accepted s)"
  unfolding invariant_def unknown_def by blast

lemma inv_Connection:
  assumes inv: "invariant s" and new: "c \<notin> set (accepted s)"
  shows "invariant (step decode s (Connection c))"
proof -
  have free: "\<And>x. \<not> holds s c x" using inv new unfolding invariant_def unknown_def by blast
  have un: "unused s" and wf: "wellFormed s" using inv unfolding invariant_def by blast+
  show ?thesis
  proof (rule invariant_add [OF inv free, where y = "Call (fresh s)"])
    fix c' x
    assume "holds (step decode s (Connection c)) c' x"
    then show "holds s c' x \<or> (c' = c \<and> x = Call (fresh s))"
      by (cases x) (auto simp add: onConnection_def suspend_def live_def split: if_splits)
  next
    show "unused (step decode s (Connection c))"
      using un by (simp add: unused_def onConnection_def suspend_def)
  next
    show "wellFormed (step decode s (Connection c))" using wf by (rule wf_step)
  qed (auto simp add: onConnection_def suspend_def)
qed


lemma inv_GeminiClose:
  assumes inv: "invariant s" and op: "readyState (sockets s g) \<noteq> CLOSED"
  shows "invariant (step decode s (GeminiClose g))"
proof -
  let ?c = "k_clientWs (sockets s g)"
  let ?m = "setReadyState s g CLOSED"
  have h0: "holds s ?c (Socket g)" using op by (simp add: live_def)
  have shr: "\<And>c' x. holds ?m c' x \<Longrightarrow> holds s c' x \<and> \<not> (c' = ?c \<and> x = Socket g)"
  proof -
    fix c' x assume "holds ?m c' x"
    then show "holds s c' x \<and> \<not> (c' = ?c \<and> x = Socket g)"
      by (cases x) (auto simp add: setReadyState_def live_def split: if_splits)
  qed
  have invm: "invariant ?m"
    by (rule invariant_shrink [OF inv]) (auto simp add: setReadyState_def live_def split: if_splits)
  have free: "\<And>x. \<not> holds ?m ?c x"
    by (rule invariant_free [OF inv h0]) (rule shr)
  have acc: "?c \<in> set (accepted s)" using inv h0 by (rule invariant_known)
  have un: "unused ?m" and wf: "wellFormed s" using invm inv unfolding invariant_def by blast+
  have k: "k_clientWs (sockets ?m g) = ?c" by (simp add: setReadyState_def)
  have "invariant (onGeminiClose ?m g)"
  proof (rule invariant_add [OF invm free, where y = "Timer (fresh s)"])
    fix c' x
    assume "holds (onGeminiClose ?m g) c' x"
    then show "holds ?m c' x \<or> (c' = ?c \<and> x = Timer (fresh s))"
      by (cases x)
         (auto simp add: onGeminiClose_def lookup_def modify_def sendClient_def setTimer_def
            clearTimer_def setReadyState_def live_def Let_def split: option.splits if_splits)
  next
    show "unused (onGeminiClose ?m g)"
      using un
      by (auto simp add: unused_def onGeminiClose_def lookup_def modify_def sendClient_def
            setTimer_def clearTimer_def setReadyState_def Let_def split: option.splits)
  next
    show "wellFormed (onGeminiClose ?m g)" using wf_step [OF wf, of decode "GeminiClose g"] by simp
  next
    show "?c \<in> set (accepted (onGeminiClose ?m g))"
      using acc
      by (auto simp add: onGeminiClose_def lookup_def modify_def sendClient_def
            setTimer_def clearTimer_def setReadyState_def Let_def split: option.splits)
  qed (auto simp add: onGeminiClose_def lookup_def modify_def sendClient_def
            setTimer_def clearTimer_def setReadyState_def Let_def split: option.splits if_splits)
  then show ?thesis by simp
qed

lemma inv_setup:
  assumes inv: "invariant s" and free: "\<And>x. \<not> holds s c x"
    and acc: "c \<in> set (accepted s)"
    and su: "setupGeminiConnection s c u a key now = Inr s'"
  shows "invariant s'"
proof -
  have un: "unused s" and wf: "wellFormed s" using inv unfolding invariant_def by blast+
  show ?thesis
  proof (rule invariant_add [OF inv free, where y = "Socket (fresh s)"])
    fix c' x
    assume "holds s' c' x"
    then show "holds s c' x \<or> (c' = c \<and> x = Socket (fresh s))"
      using su
      by (cases x)
         (auto simp add: setupGeminiConnection_def live_def Let_def split: sum.splits if_splits)
  next
    show "unused s'"
      using un su
      by (auto simp add: unused_def setupGeminiConnection_def Let_def split: sum.splits)
  next
    show "wellFormed s'" using wf su by (rule wf_setup)
  next
    fix c' r
    assume a: "clientConnections s' c' = Some r"
    show "c' = c \<or> (clientConnections s c' = Some r \<and> gemini (heap s' r) = gemini (heap s r))"
    proof (cases "c' = c")
      case True
      then show ?thesis by simp
    next
      case False
      with a have old: "clientConnections s c' = Some r" by (simp add: setup_frame(2) [OF su])
      with wf have "r < fresh s" unfolding wellFormed_def by blast
      then have "heap s' r = heap s r" by (rule setup_frame(3) [OF su])
      with old show ?thesis by simp
    qed
  next
    fix g r
    assume "Socket (fresh s) = Socket g" and "clientConnections s' c = Some r"
    then show "gemini (heap s' r) = g"
      using su by (auto simp add: setupGeminiConnection_def Let_def split: sum.splits)
  next
    show "set (accepted s) \<subseteq> set (accepted s')"
      using su by (auto simp add: setupGeminiConnection_def Let_def split: sum.splits)
  next
    show "c \<in> set (accepted s')"
      using su acc by (auto simp add: setupGeminiConnection_def Let_def split: sum.splits)
  qed
qed


lemma inv_suspend:
  assumes inv: "invariant s" and free: "\<And>x. \<not> holds s c x"
    and acc: "c \<in> set (accepted s)"
    and k: "k = AwaitConnection c \<or> k = AwaitReconnect c"
  shows "invariant (suspend s k)"
proof -
  have un: "unused s" and wf: "wellFormed s" using inv unfolding invariant_def by blast+
  show ?thesis
  proof (rule invariant_add [OF inv free, where y = "Call (fresh s)"])
    fix c' x
    assume "holds (suspend s k) c' x"
    then show "holds s c' x \<or> (c' = c \<and> x = Call (fresh s))"
      using k by (cases x) (auto simp add: suspend_def live_def split: if_splits)
  next
    show "unused (suspend s k)" using un by (simp add: unused_def suspend_def)
  next
    show "wellFormed (suspend s k)"
      by (rule wf_mono [OF wf]) (simp_all add: suspend_def)
  qed (insert acc, auto simp add: suspend_def)
qed

lemma inv_fallback:
  assumes inv: "invariant s" and free: "\<And>x. \<not> holds s c x"
    and acc: "c \<in> set (accepted s)"
  shows "invariant (snd (setTimer s (FallbackTimer c) 2000))"
proof -
  have un: "unused s" and wf: "wellFormed s" using inv unfolding invariant_def by blast+
  show ?thesis
  proof (rule invariant_add [OF inv free, where y = "Timer (fresh s)"])
    fix c' x
    assume "holds (snd (setTimer s (FallbackTimer c) 2000)) c' x"
    then show "holds s c' x \<or> (c' = c \<and> x = Timer (fresh s))"
      by (cases x) (auto simp add: setTimer_def live_def split: if_splits)
  next
    show "unused (snd (setTimer s (FallbackTimer c) 2000))"
      using un by (simp add: unused_def setTimer_def)
  next
    show "wellFormed (snd (setTimer s (FallbackTimer c) 2000))"
      by (rule wf_mono [OF wf]) (simp_all add: setTimer_def)
  qed (insert acc, auto simp add: setTimer_def)
qed

lemma inv_rejection: "invariant s \<Longrightarrow> invariant (s\<lparr>unhandledRejections := e\<rparr>)"
  by (erule invariant_shrink) (auto simp add: live_def)

lemma inv_TimerFires:
  assumes inv: "invariant s"
  shows "invariant (step decode s (TimerFires h key now))"
proof (cases "timers s h")
  case None
  with inv show ?thesis by (simp add: onTimer_def)
next
  case (Some td)
  obtain t d where td: "td = (t, d)" by (cases td)
  let ?m = "clearTimer s h"
  have invm: "invariant ?m"
    by (rule invariant_shrink [OF inv]) (auto simp add: clearTimer_def live_def split: if_splits)
  have shr: "\<And>c c' x. holds ?m c' x \<Longrightarrow> holds s c' x \<and> \<not> (c' = c \<and> x = Timer h)"
  proof -
    fix c c' x assume "holds ?m c' x"
    then show "holds s c' x \<and> \<not> (c' = c \<and> x = Timer h)"
      by (cases x) (auto simp add: clearTimer_def live_def split: if_splits)
  qed
  have am: "accepted ?m = accepted s" by (simp add: clearTimer_def)
  show ?thesis
  proof (cases t)
    case (PingTimer g r)
    have "invariant (pingTick s g r now)"
      by (rule invariant_shrink [OF inv])
         (auto simp add: pingTick_def modify_def sendGemini_def closeSocket_def setReadyState_def
            isOpen_def live_def Let_def split: if_splits)
    with Some td PingTimer show ?thesis by (simp add: onTimer_def)
  next
    case (ReconnectTimer c)
    have h0: "holds s c (Timer h)" using Some td ReconnectTimer by simp
    have free: "\<And>x. \<not> holds ?m c x" by (rule invariant_free [OF inv h0]) (rule shr)
    have acc: "c \<in> set (accepted ?m)" using invariant_known [OF inv h0] am by simp
    have "invariant (suspend ?m (AwaitReconnect c))"
      by (rule inv_suspend [OF invm free acc]) simp
    with Some td ReconnectTimer show ?thesis by (simp add: onTimer_def)
  next
    case (FallbackTimer c)
    have h0: "holds s c (Timer h)" using Some td FallbackTimer by simp
    have free: "\<And>x. \<not> holds ?m c x" by (rule invariant_free [OF inv h0]) (rule shr)
    have acc: "c \<in> set (accepted ?m)" using invariant_known [OF inv h0] am by simp
    show ?thesis
    proof (cases "setupGeminiConnection ?m c False AuthThrows key now")
      case (Inl e)
      with Some td FallbackTimer inv_rejection [OF invm] show ?thesis
        by (simp add: onTimer_def Let_def)
    next
      case (Inr s')
      with Some td FallbackTimer inv_setup [OF invm free acc Inr] show ?thesis
        by (simp add: onTimer_def Let_def)
    qed
  qed
qed

lemma inv_TokenSettles:
  assumes inv: "invariant s"
  shows "invariant (step decode s (TokenSettles p a key now))"
proof (cases "awaiting s p")
  case None
  with inv show ?thesis by (simp add: onTokenSettled_def)
next
  case (Some k)
  let ?m = "s\<lparr>awaiting := (awaiting s)(p := None)\<rparr>"
  have invm: "invariant ?m"
    by (rule invariant_shrink [OF inv]) (auto simp add: live_def split: if_splits)
  have shr: "\<And>c c' x. holds ?m c' x \<Longrightarrow> holds s c' x \<and> \<not> (c' = c \<and> x = Call p)"
  proof -
    fix c c' x assume "holds ?m c' x"
    then show "holds s c' x \<and> \<not> (c' = c \<and> x = Call p)"
      by (cases x) (auto simp add: live_def split: if_splits)
  qed
  show ?thesis
  proof (cases k)
    case (AwaitConnection c)
    have h0: "holds s c (Call p)" using Some AwaitConnection by simp
    have free: "\<And>x. \<not> holds ?m c x" by (rule invariant_free [OF inv h0]) (rule shr)
    have acc: "c \<in> set (accepted ?m)" using invariant_known [OF inv h0] by simp
    show ?thesis
    proof (cases "setupGeminiConnection ?m c True a key now")
      case (Inr s')
      with Some AwaitConnection inv_setup [OF invm free acc Inr] show ?thesis
        by (simp add: onTokenSettled_def Let_def)
    next
      case (Inl e)
      note first = Inl
      show ?thesis
      proof (cases "setupGeminiConnection ?m c False a key now")
        case (Inr s')
        with first Some AwaitConnection inv_setup [OF invm free acc Inr] show ?thesis
          by (simp add: onTokenSettled_def Let_def)
      next
        case (Inl e')
        with first Some AwaitConnection inv_rejection [OF invm]
        show ?thesis by (simp add: onTokenSettled_def Let_def)
      qed
    qed
  next
    case (AwaitReconnect c)
    have h0: "holds s c (Call p)" using Some AwaitReconnect by simp
    have free: "\<And>x. \<not> holds ?m c x" by (rule invariant_free [OF inv h0]) (rule shr)
    have acc: "c \<in> set (accepted ?m)" using invariant_known [OF inv h0] by simp
    show ?thesis
    proof (cases "setupGeminiConnection ?m c True a key now")
      case (Inr s')
      with Some AwaitReconnect inv_setup [OF invm free acc Inr] show ?thesis
        by (simp add: onTokenSettled_def Let_def)
    next
      case (Inl e)
      with Some AwaitReconnect inv_fallback [OF invm free acc] show ?thesis
        by (simp add: onTokenSettled_def Let_def)
    qed
  qed
qed


lemma invariant_step: "invariant s \<Longrightarrow> allowed s e \<Longrightarrow> invariant (step decode s e)"
  using inv_Connection inv_TokenSettles inv_ClientMessage inv_ClientClose inv_GeminiOpen
    inv_GeminiPong inv_GeminiMessage inv_GeminiClose inv_GeminiError inv_TimerFires
  by (cases e) simp_all

lemma invariant_start: "invariant start"
  by (auto simp add: invariant_def wellFormed_def single_def current_def unused_def unknown_def
        live_def start_def elim: holds.elims)

lemma invariant_run:
  "invariant s \<Longrightarrow> admissible decode s es \<Longrightarrow> invariant (run decode s es)"
  unfolding run_def by (induction es arbitrary: s) (simp_all add: invariant_step)

lemma upstream_event_touches:
  assumes "e = GeminiMessage g m now \<or> e = GeminiPong g now \<or> e = GeminiClose g"
    and "heap (step decode s e) r \<noteq> heap s r"
  shows "clientConnections s (k_clientWs (sockets s g)) = Some r"
  using assms
  by (auto simp add: onGeminiMessage_def onGeminiPong_def onGeminiClose_def flushAssistant_def
        lookup_def modify_def sendClient_def setReadyState_def setTimer_def clearTimer_def Let_def
        split: option.splits gemini_msg.splits prod.splits if_splits)

text \<open>
  Claim C1. In every state that a run allowed by the environment reaches, and for
  every registered session: an upstream socket of the session other than the one
  its record names is closed, so that the transport delivers no message, pong or
  close on it; at most one upstream socket of the session is not closed; and a
  message, pong or close event that changes the record of the session was
  delivered on the socket that this record names. A record is thus never changed
  by an event of a connection that it has replaced.
\<close>

theorem superseded_connection_is_silent:
  assumes "admissible decode start es"
    and "s = run decode start es"
    and "clientConnections s c = Some r"
  shows "(k_clientWs (sockets s g) = c \<and> g \<noteq> gemini (heap s r) \<longrightarrow>
            readyState (sockets s g) = CLOSED
            \<and> \<not> allowed s (GeminiMessage g m now)
            \<and> \<not> allowed s (GeminiPong g now)
            \<and> \<not> allowed s (GeminiClose g))
         \<and> (k_clientWs (sockets s g) = c \<and> k_clientWs (sockets s g') = c
              \<and> readyState (sockets s g) \<noteq> CLOSED
              \<and> readyState (sockets s g') \<noteq> CLOSED \<longrightarrow> g' = g)
         \<and> ((e = GeminiMessage g m now \<or> e = GeminiPong g now \<or> e = GeminiClose g)
              \<and> allowed s e \<and> heap (step decode s e) r \<noteq> heap s r \<longrightarrow>
              gemini (heap s r) = g)"
proof -
  have inv: "invariant s" unfolding assms(2) by (rule invariant_run [OF invariant_start assms(1)])
  have cur: "\<And>c' r'. clientConnections s c' = Some r' \<Longrightarrow> k_clientWs (sockets s g) = c'
               \<Longrightarrow> readyState (sockets s g) \<noteq> CLOSED \<Longrightarrow> gemini (heap s r') = g"
    using inv unfolding invariant_def current_def live_def by blast
  have closed: "k_clientWs (sockets s g) = c \<and> g \<noteq> gemini (heap s r) \<longrightarrow>
            readyState (sockets s g) = CLOSED
            \<and> \<not> allowed s (GeminiMessage g m now)
            \<and> \<not> allowed s (GeminiPong g now)
            \<and> \<not> allowed s (GeminiClose g)"
    using cur [OF assms(3)] by auto
  have one: "k_clientWs (sockets s g) = c \<and> k_clientWs (sockets s g') = c
              \<and> readyState (sockets s g) \<noteq> CLOSED
              \<and> readyState (sockets s g') \<noteq> CLOSED \<longrightarrow> g' = g"
  proof
    assume a: "k_clientWs (sockets s g) = c \<and> k_clientWs (sockets s g') = c
              \<and> readyState (sockets s g) \<noteq> CLOSED
              \<and> readyState (sockets s g') \<noteq> CLOSED"
    then have "holds s c (Socket g') \<and> holds s c (Socket g)" by (simp add: live_def)
    then have "Socket g' = Socket g" using inv unfolding invariant_def single_def by blast
    then show "g' = g" by simp
  qed
  have own: "(e = GeminiMessage g m now \<or> e = GeminiPong g now \<or> e = GeminiClose g)
              \<and> allowed s e \<and> heap (step decode s e) r \<noteq> heap s r \<longrightarrow>
              gemini (heap s r) = g"
  proof
    assume a: "(e = GeminiMessage g m now \<or> e = GeminiPong g now \<or> e = GeminiClose g)
              \<and> allowed s e \<and> heap (step decode s e) r \<noteq> heap s r"
    then have reg: "clientConnections s (k_clientWs (sockets s g)) = Some r"
      using upstream_event_touches [of e g m now decode s r] by blast
    from a have "readyState (sockets s g) \<noteq> CLOSED" by auto
    with reg show "gemini (heap s r) = g" using cur by blast
  qed
  from closed one own show ?thesis by blast
qed

theorem superseded_connection_is_silent_witness:
  "admissible id start reconnection
   \<and> reconnected = run id start reconnection
   \<and> clientConnections reconnected 0 = Some 9
   \<and> k_clientWs (sockets reconnected 1) = 0
   \<and> gemini (heap reconnected 9) = 7
   \<and> readyState (sockets reconnected 1) = CLOSED
   \<and> \<not> allowed reconnected (GeminiMessage 1 Malformed 4000)
   \<and> \<not> allowed reconnected (GeminiPong 1 4000)
   \<and> \<not> allowed reconnected (GeminiClose 1)
   \<and> allowed reconnected (GeminiPong 7 4000)
   \<and> lastPong (heap reconnected 9) = 3000
   \<and> lastPong (heap (step id reconnected (GeminiPong 7 4000)) 9) = 4000"
proof -
  have ad: "admissible id start reconnection" by (simp add: reconnected_facts)
  have c: "clientConnections reconnected 0 = Some 9" by (simp add: reconnected_facts)
  have k: "k_clientWs (sockets reconnected 1) = 0" by (simp add: reconnected_facts)
  have g: "gemini (heap reconnected 9) = 7" by (simp add: reconnected_facts)
  note th = superseded_connection_is_silent [OF ad reconnected_def c]
  from k g th [where g = 1 and m = Malformed and now = 4000]
  have silent: "readyState (sockets reconnected 1) = CLOSED
      \<and> \<not> allowed reconnected (GeminiMessage 1 Malformed 4000)
      \<and> \<not> allowed reconnected (GeminiPong 1 4000)
      \<and> \<not> allowed reconnected (GeminiClose 1)"
    by simp
  have al: "allowed reconnected (GeminiPong 7 4000)" by (simp add: reconnected_facts)
  have p0: "lastPong (heap reconnected 9) = 3000" by (simp add: reconnected_facts)
  have p1: "lastPong (heap (step id reconnected (GeminiPong 7 4000)) 9) = 4000"
    by (simp add: onGeminiPong_def lookup_def modify_def reconnected_facts)
  have ch: "heap (step id reconnected (GeminiPong 7 4000)) 9 \<noteq> heap reconnected 9"
    using p0 p1 by auto
  from al ch th [where e = "GeminiPong 7 4000" and g = 7 and now = 4000]
  have "gemini (heap reconnected 9) = 7" by blast
  with ad c k silent al p0 p1 show ?thesis by (simp add: reconnected_def)
qed

end
